theory Spec2Isabelle
  imports Main "HOL-Library.Extended_Nat" "HOL-Library.Multiset" "HOL-Library.AList"
    "HOL-Library.List_Lexorder"
begin

section \<open>Data model of \<^verbatim>\<open>src/planner.ts\<close>\<close>

text \<open>
  Coordinates are JavaScript numbers holding integers (the specification's Point is an
  integer pair), so they are modelled as \<open>int\<close>. The grid size is an \<open>int\<close> as well.
\<close>

record Point =
  x :: int
  y :: int

record Shelf =
  id_Shelf :: string
  items :: "string list"
  pos :: Point

text \<open>
  \<open>holding\<close> is \<^verbatim>\<open>string | null\<close>: \<open>None\<close> is \<^verbatim>\<open>null\<close>. \<open>itemLocations\<close> is a
  \<^verbatim>\<open>Record<string, string>\<close>, a plain object. It is modelled by the list of its own
  entries in the order of \<^verbatim>\<open>Object.entries\<close>: the keys that are array indices first, in
  ascending order, then the other keys in the order of their creation. A read
  \<^verbatim>\<open>itemLocations[item]\<close> is compared with a string only, and what a plain object
  inherits for a key it does not own is never a string, so a read is \<open>map_of\<close>.
\<close>

record WorldState =
  robotPos :: Point
  holding :: "string option"
  itemLocations :: "(string \<times> string) list"

text \<open>
  An action is a record with a type tag, the parameters the tag needs and a cost. The
  three shapes that \<^verbatim>\<open>getSuccessors\<close> builds are the three constructors:
  \<open>MOVE from to path cost\<close>, \<open>PICK item shelfId cost\<close>, \<open>DROP item cost\<close>.
\<close>

datatype Action =
  MOVE Point Point "Point list" nat
| PICK string string nat
| DROP string nat

fun cost :: "Action \<Rightarrow> nat" where
  "cost (MOVE a b p c) = c"
| "cost (PICK i s c) = c"
| "cost (DROP i c) = c"

record PlannerResult =
  path :: "Action list"
  iterations :: nat

subsection \<open>The priority queue\<close>

text \<open>
  \<^verbatim>\<open>elements\<close> is an array of \<^verbatim>\<open>{item, priority}\<close>. \<^verbatim>\<open>enqueue\<close> pushes and then sorts by
  priority; \<^verbatim>\<open>Array.prototype.sort\<close> is stable, and so is \<open>sort_key\<close>. The comparator
  \<^verbatim>\<open>a.priority - b.priority\<close> of two infinite priorities is NaN, which \<^verbatim>\<open>sort\<close> reads
  as equal: the order of the priorities is the one of \<open>enat\<close>.
\<close>

definition enqueue :: "'a \<Rightarrow> 'p::linorder \<Rightarrow> ('a \<times> 'p) list \<Rightarrow> ('a \<times> 'p) list" where
  "enqueue item priority elements = sort_key snd (elements @ [(item, priority)])"

definition dequeue :: "('a \<times> 'p) list \<Rightarrow> ('a \<times> ('a \<times> 'p) list) option" where
  "dequeue elements = (case elements of [] \<Rightarrow> None | e # rest \<Rightarrow> Some (fst e, rest))"

definition isEmpty :: "('a \<times> 'p) list \<Rightarrow> bool" where
  "isEmpty elements = (length elements = 0)"

subsection \<open>Keys of grid cells\<close>

text \<open>
  \<^verbatim>\<open>pointToString\<close> is the template \<^verbatim>\<open>`${p.x},${p.y}`\<close>: the decimal numerals of the
  two coordinates with a comma between them. \<^verbatim>\<open>stringToPoint\<close> splits at the commas
  and reads the first two parts with \<^verbatim>\<open>Number\<close>; \<open>toNumber\<close> is \<^verbatim>\<open>Number\<close> on the
  decimal integer numerals, the only strings the program gives it.
\<close>

definition digitChar :: "nat \<Rightarrow> char" where
  "digitChar d = ''0123456789'' ! d"

fun digitsOf :: "nat \<Rightarrow> string" where
  "digitsOf n = (if n < 10 then [digitChar n] else digitsOf (n div 10) @ [digitChar (n mod 10)])"

definition showInt :: "int \<Rightarrow> string" where
  "showInt i = (if i < 0 then CHR ''-'' # digitsOf (nat (- i)) else digitsOf (nat i))"

definition pointToString :: "Point \<Rightarrow> string" where
  "pointToString p = showInt (x p) @ '','' @ showInt (y p)"

definition digitVal :: "char \<Rightarrow> nat" where
  "digitVal c = (of_char c :: nat) - 48"

definition toNumber :: "string \<Rightarrow> int" where
  "toNumber s =
     (if s \<noteq> [] \<and> hd s = CHR ''-''
      then - int (foldl (\<lambda>a c. 10 * a + digitVal c) 0 (tl s))
      else int (foldl (\<lambda>a c. 10 * a + digitVal c) 0 s))"

definition stringToPoint :: "string \<Rightarrow> Point" where
  "stringToPoint s =
     \<lparr>x = toNumber (takeWhile (\<lambda>c. c \<noteq> CHR '','') s),
      y = toNumber (takeWhile (\<lambda>c. c \<noteq> CHR '','') (drop 1 (dropWhile (\<lambda>c. c \<noteq> CHR '','') s)))\<rparr>"

subsection \<open>Grid pathfinding\<close>

definition manhattanDistance :: "Point \<Rightarrow> Point \<Rightarrow> int" where
  "manhattanDistance a b = \<bar>x a - x b\<bar> + \<bar>y a - y b\<bar>"

text \<open>
  \<^verbatim>\<open>gScore.get(k) || 0\<close> and \<^verbatim>\<open>gScore.get(k) || Infinity\<close>: the operator \<^verbatim>\<open>||\<close> takes its
  right operand when the left one is \<^verbatim>\<open>undefined\<close> and also when it is the number 0.
\<close>

definition orZero :: "nat option \<Rightarrow> nat" where
  "orZero v = (case v of None \<Rightarrow> 0 | Some g \<Rightarrow> g)"

definition orInfinity :: "nat option \<Rightarrow> enat" where
  "orInfinity v = (case v of None \<Rightarrow> \<infinity> | Some g \<Rightarrow> if g = 0 then \<infinity> else enat g)"

text \<open>The four neighbours of a cell, in the source's order, filtered by bounds and obstacles.\<close>

definition neighborsOf :: "Point list \<Rightarrow> int \<Rightarrow> Point \<Rightarrow> Point list" where
  "neighborsOf obstacles gridSize current =
     filter (\<lambda>p. x p \<ge> 0 \<and> x p < gridSize \<and> y p \<ge> 0 \<and> y p < gridSize
               \<and> pointToString p \<notin> set (map pointToString obstacles))
       [\<lparr>x = x current + 1, y = y current\<rparr>, \<lparr>x = x current - 1, y = y current\<rparr>,
        \<lparr>x = x current, y = y current + 1\<rparr>, \<lparr>x = x current, y = y current - 1\<rparr>]"

text \<open>
  The state of the search: the open set, \<^verbatim>\<open>cameFrom\<close> and \<^verbatim>\<open>gScore\<close>. \<open>relax\<close> is the body
  of the loop over the neighbours.
\<close>

type_synonym pathState = "(Point \<times> int) list \<times> (string \<rightharpoonup> string) \<times> (string \<rightharpoonup> nat)"

definition relax :: "Point \<Rightarrow> Point \<Rightarrow> pathState \<Rightarrow> Point \<Rightarrow> pathState" where
  "relax endP current st neighbor =
     (case st of (openSet, cameFrom, gScore) \<Rightarrow>
        let tentativeGScore = orZero (gScore (pointToString current)) + 1 in
        if enat tentativeGScore < orInfinity (gScore (pointToString neighbor))
        then (enqueue neighbor (int tentativeGScore + manhattanDistance neighbor endP) openSet,
              cameFrom(pointToString neighbor \<mapsto> pointToString current),
              gScore(pointToString neighbor \<mapsto> tentativeGScore))
        else (openSet, cameFrom, gScore))"

text \<open>
  The inner loop \<^verbatim>\<open>while(cameFrom.has(currStr))\<close> follows \<^verbatim>\<open>cameFrom\<close> back from the goal.
  Nothing in it bounds the number of rounds, so it is a partial function: \<open>None\<close> is a
  loop that never ends.
\<close>

partial_function (option) reconstruct ::
  "(string \<rightharpoonup> string) \<Rightarrow> string \<Rightarrow> Point list \<Rightarrow> Point list option" where
  "reconstruct cameFrom currStr pth =
     (case cameFrom currStr of
        None \<Rightarrow> Some pth
      | Some prev \<Rightarrow> reconstruct cameFrom prev (stringToPoint currStr # pth))"

text \<open>
  The main loop. The result \<open>Some (Some p)\<close> is the returned path \<open>p\<close>, \<open>Some None\<close> is
  the returned \<^verbatim>\<open>null\<close>, and \<open>None\<close> is a call that never returns.
\<close>

partial_function (option) findPathLoop ::
  "Point \<Rightarrow> Point \<Rightarrow> Point list \<Rightarrow> int \<Rightarrow> pathState \<Rightarrow> Point list option option" where
  "findPathLoop start endP obstacles gridSize st =
     (case st of (openSet, cameFrom, gScore) \<Rightarrow>
        (case dequeue openSet of
           None \<Rightarrow> Some None
         | Some (current, rest) \<Rightarrow>
             if x current = x endP \<and> y current = y endP
             then (case reconstruct cameFrom (pointToString current) [] of
                     None \<Rightarrow> None
                   | Some pth \<Rightarrow> Some (Some (start # pth)))
             else findPathLoop start endP obstacles gridSize
                    (foldl (relax endP current) (rest, cameFrom, gScore)
                       (neighborsOf obstacles gridSize current))))"

definition findPath :: "Point \<Rightarrow> Point \<Rightarrow> Point list \<Rightarrow> int \<Rightarrow> Point list option option" where
  "findPath start endP obstacles gridSize =
     findPathLoop start endP obstacles gridSize
       (enqueue start (manhattanDistance start endP) [], Map.empty, [pointToString start \<mapsto> 0])"

declare reconstruct.simps [code]
declare findPathLoop.simps [code]

subsection \<open>World states and actions\<close>

text \<open>
  The collation of the host, \<^verbatim>\<open>String.prototype.localeCompare\<close>, is not part of the
  repository. The model takes it as a parameter \<open>ck\<close>, a collation key into a linear
  order: \<^verbatim>\<open>a.localeCompare(b)\<close> is negative, zero or positive as \<open>ck a\<close> is less than,
  equal to or greater than \<open>ck b\<close>. Two different strings may have the same key: the
  host's collation gives 0 for some pairs of different strings.
\<close>

fun join :: "string \<Rightarrow> string list \<Rightarrow> string" where
  "join sep [] = []"
| "join sep [s] = s"
| "join sep (s # t # rest) = s @ sep @ join sep (t # rest)"

definition stateToString :: "(string \<Rightarrow> 'k::linorder) \<Rightarrow> WorldState \<Rightarrow> string" where
  "stateToString ck state =
     (let entries = join '','' (map (\<lambda>(item, loc). item @ '':'' @ loc)
                      (sort_key (\<lambda>(a, _). ck a) (itemLocations state)))
      in showInt (x (robotPos state)) @ '','' @ showInt (y (robotPos state)) @ ''|''
           @ (case holding state of None \<Rightarrow> ''null'' | Some h \<Rightarrow> h) @ ''|'' @ entries)"

definition isGoal :: "WorldState \<Rightarrow> string list \<Rightarrow> bool" where
  "isGoal state goalItems =
     list_all (\<lambda>item. map_of (itemLocations state) item = Some ''collectionPoint'') goalItems"

text \<open>
  The tests \<^verbatim>\<open>if (state.holding)\<close> and \<^verbatim>\<open>if (itemToPick)\<close> are tests of truthiness:
  \<^verbatim>\<open>null\<close>, \<^verbatim>\<open>undefined\<close> and the empty string fail them.
\<close>

definition truthy :: "string option \<Rightarrow> string option" where
  "truthy v = (case v of None \<Rightarrow> None | Some s \<Rightarrow> if s = [] then None else Some s)"

text \<open>The loop over the target shelves; a call of \<open>findPath\<close> that never returns stops it.\<close>

fun shelfMoves :: "WorldState \<Rightarrow> Point list \<Rightarrow> int \<Rightarrow> Shelf list \<Rightarrow> Action list option" where
  "shelfMoves state obstacles gridSize [] = Some []"
| "shelfMoves state obstacles gridSize (shelf # rest) =
     (case findPath (robotPos state) (pos shelf) obstacles gridSize of
        None \<Rightarrow> None
      | Some found \<Rightarrow>
          (case shelfMoves state obstacles gridSize rest of
             None \<Rightarrow> None
           | Some moves \<Rightarrow>
               Some ((case found of
                        None \<Rightarrow> []
                      | Some pth \<Rightarrow>
                          if length pth > 1
                          then [MOVE (robotPos state) (pos shelf) pth (length pth - 1)]
                          else []) @ moves)))"

definition getSuccessors ::
  "WorldState \<Rightarrow> string list \<Rightarrow> Shelf list \<Rightarrow> Point \<Rightarrow> Point list \<Rightarrow> int \<Rightarrow> Action list option" where
  "getSuccessors state goalItems shelves collectionPoint obstacles gridSize =
     (let neededItems =
            filter (\<lambda>item. map_of (itemLocations state) item \<noteq> Some ''collectionPoint''
                          \<and> map_of (itemLocations state) item \<noteq> Some ''robot'') goalItems
      in case truthy (holding state) of
           Some held \<Rightarrow>
             (case findPath (robotPos state) collectionPoint obstacles gridSize of
                None \<Rightarrow> None
              | Some None \<Rightarrow> Some []
              | Some (Some pth) \<Rightarrow>
                  if length pth > 1
                  then Some [MOVE (robotPos state) collectionPoint pth (length pth - 1)]
                  else Some [DROP held 1])
         | None \<Rightarrow>
             (let picks =
                    (case find (\<lambda>s. x (pos s) = x (robotPos state) \<and> y (pos s) = y (robotPos state))
                            shelves of
                       None \<Rightarrow> []
                     | Some currentShelf \<Rightarrow>
                         (case truthy (find (\<lambda>item. item \<in> set neededItems) (items currentShelf)) of
                            None \<Rightarrow> []
                          | Some itemToPick \<Rightarrow> [PICK itemToPick (id_Shelf currentShelf) 1]));
                  targetShelves =
                    filter (\<lambda>s. list_ex (\<lambda>item. item \<in> set neededItems) (items s)) shelves
              in case shelfMoves state obstacles gridSize targetShelves of
                   None \<Rightarrow> None
                 | Some moves \<Rightarrow> Some (picks @ moves)))"

text \<open>
  \<^verbatim>\<open>JSON.parse(JSON.stringify(state))\<close> copies the state: the copy is a plain object
  with the same own entries in the same order, and the model's values are immutable, so
  the copy is the state itself.

  The assignment \<^verbatim>\<open>newState.itemLocations[k] = v\<close> on that copy: a key that the object owns
  keeps its place and takes the new value; the key \<^verbatim>\<open>__proto__\<close>, when the object does not
  own it, goes to the setter that the object inherits, which ignores a string, so no
  entry is made; any other new key makes an entry, listed among the array indices when
  it is one (\<open>arrayIndex\<close>: the decimal numeral, without leading zeros, of a number up to
  4294967294) and last otherwise.
\<close>

definition arrayIndex :: "string \<Rightarrow> nat option" where
  "arrayIndex k =
     (let n = foldl (\<lambda>a c. 10 * a + digitVal c) 0 k
      in if k = digitsOf n \<and> n \<le> 4294967294 then Some n else None)"

definition indexBelow :: "nat \<Rightarrow> string \<times> string \<Rightarrow> bool" where
  "indexBelow n e = (case arrayIndex (fst e) of None \<Rightarrow> False | Some m \<Rightarrow> m < n)"

definition assignEntry :: "string \<Rightarrow> string \<Rightarrow> (string \<times> string) list \<Rightarrow> (string \<times> string) list" where
  "assignEntry k v entries =
     (if k \<in> fst ` set entries then AList.update k v entries
      else if k = ''__proto__'' then entries
      else (case arrayIndex k of
              None \<Rightarrow> entries @ [(k, v)]
            | Some n \<Rightarrow> takeWhile (indexBelow n) entries @ (k, v) # dropWhile (indexBelow n) entries))"

fun applyAction :: "WorldState \<Rightarrow> Action \<Rightarrow> WorldState" where
  "applyAction state (MOVE a b p c) = state\<lparr>robotPos := b\<rparr>"
| "applyAction state (PICK i s c) =
     state\<lparr>holding := Some i, itemLocations := assignEntry i ''robot'' (itemLocations state)\<rparr>"
| "applyAction state (DROP i c) =
     state\<lparr>itemLocations := assignEntry i ''collectionPoint'' (itemLocations state),
           holding := None\<rparr>"

text \<open>
  The heuristic is a number or \<^verbatim>\<open>Infinity\<close>: an \<open>enat\<close>. A path that \<open>findPath\<close>
  returns begins with the start, so \<^verbatim>\<open>path.length - 1\<close> is not negative.
\<close>

definition heuristic ::
  "WorldState \<Rightarrow> string list \<Rightarrow> Point \<Rightarrow> Point list \<Rightarrow> int \<Rightarrow> enat option" where
  "heuristic state goalItems collectionPoint obstacles gridSize =
     (let itemsToGet =
            filter (\<lambda>item. map_of (itemLocations state) item \<noteq> Some ''collectionPoint'') goalItems;
          h = enat (length itemsToGet * 20)
      in case truthy (holding state) of
           None \<Rightarrow> Some h
         | Some held \<Rightarrow>
             (case findPath (robotPos state) collectionPoint obstacles gridSize of
                None \<Rightarrow> None
              | Some None \<Rightarrow> Some (h + \<infinity>)
              | Some (Some pth) \<Rightarrow> Some (h + enat (length pth - 1))))"

subsection \<open>The task planner\<close>

text \<open>
  The state of the outer search: the open set of \<^verbatim>\<open>{state, path}\<close> entries with their
  priorities, \<^verbatim>\<open>gScore\<close> and \<^verbatim>\<open>fScore\<close>. \<open>processSuccessors\<close> is the loop over the
  successor actions of one iteration.
\<close>

type_synonym planState =
  "((WorldState \<times> Action list) \<times> enat) list \<times> (string \<rightharpoonup> nat) \<times> (string \<rightharpoonup> enat)"

fun processSuccessors ::
  "(string \<Rightarrow> 'k::linorder) \<Rightarrow> string list \<Rightarrow> Point \<Rightarrow> Point list \<Rightarrow> int \<Rightarrow>
   WorldState \<Rightarrow> string \<Rightarrow> Action list \<Rightarrow> Action list \<Rightarrow> planState \<Rightarrow> planState option" where
  "processSuccessors ck goalItems collectionPoint obstacles gridSize
     currentState currentStateKey currentPath [] st = Some st"
| "processSuccessors ck goalItems collectionPoint obstacles gridSize
     currentState currentStateKey currentPath (action # rest) st =
     (case st of (openSet, gScore, fScore) \<Rightarrow>
        let nextState = applyAction currentState action;
            nextStateKey = stateToString ck nextState;
            tentativeGScore = orZero (gScore currentStateKey) + cost action
        in if enat tentativeGScore < orInfinity (gScore nextStateKey)
           then (case heuristic nextState goalItems collectionPoint obstacles gridSize of
                   None \<Rightarrow> None
                 | Some h \<Rightarrow>
                     processSuccessors ck goalItems collectionPoint obstacles gridSize
                       currentState currentStateKey currentPath rest
                       (enqueue (nextState, currentPath @ [action]) (enat tentativeGScore + h) openSet,
                        gScore(nextStateKey \<mapsto> tentativeGScore),
                        fScore(nextStateKey \<mapsto> enat tentativeGScore + h)))
           else processSuccessors ck goalItems collectionPoint obstacles gridSize
                  currentState currentStateKey currentPath rest st)"

definition maxIterations :: nat where
  "maxIterations = 5000"

text \<open>
  One round of the main loop, entered with the counter \<^verbatim>\<open>iterations\<close> at \<open>iters\<close>. It ends the call
  (\<open>Inl\<close>: the returned value and the lines written with \<^verbatim>\<open>console.error\<close>) or goes on
  with a new state (\<open>Inr\<close>); \<open>None\<close> is a round that never ends because a call of
  \<open>findPath\<close> in it never returns. The open set is not empty where \<open>dequeue\<close> is
  called, so its branch \<open>None\<close> is never taken.
\<close>

definition plannerBody ::
  "(string \<Rightarrow> 'k::linorder) \<Rightarrow> string list \<Rightarrow> Shelf list \<Rightarrow> Point \<Rightarrow> Point list \<Rightarrow> int \<Rightarrow>
   planState \<Rightarrow> nat \<Rightarrow> ((PlannerResult option \<times> string list) + planState) option" where
  "plannerBody ck goalItems shelves collectionPoint obstacles gridSize st iters =
     (case st of (openSet, gScore, fScore) \<Rightarrow>
        if isEmpty openSet then Some (Inl (None, []))
        else if Suc iters > maxIterations
        then Some (Inl (None, [''Planner timed out: max iterations reached.'']))
        else
          (case dequeue openSet of
             None \<Rightarrow> Some (Inl (None, []))
           | Some ((currentState, currentPath), rest) \<Rightarrow>
               if isGoal currentState goalItems
               then Some (Inl (Some \<lparr>path = currentPath, iterations = Suc iters\<rparr>, []))
               else
                 (case getSuccessors currentState goalItems shelves collectionPoint obstacles gridSize of
                    None \<Rightarrow> None
                  | Some successors \<Rightarrow>
                      map_option Inr
                        (processSuccessors ck goalItems collectionPoint obstacles gridSize
                           currentState (stateToString ck currentState) currentPath successors
                           (rest, gScore, fScore)))))"

function plannerLoop ::
  "(string \<Rightarrow> 'k::linorder) \<Rightarrow> string list \<Rightarrow> Shelf list \<Rightarrow> Point \<Rightarrow> Point list \<Rightarrow> int \<Rightarrow>
   planState \<Rightarrow> nat \<Rightarrow> (PlannerResult option \<times> string list) option" where
  "plannerLoop ck goalItems shelves collectionPoint obstacles gridSize st iters =
     (case plannerBody ck goalItems shelves collectionPoint obstacles gridSize st iters of
        None \<Rightarrow> None
      | Some (Inl result) \<Rightarrow> Some result
      | Some (Inr st') \<Rightarrow>
          plannerLoop ck goalItems shelves collectionPoint obstacles gridSize st' (Suc iters))"
  by pat_completeness auto
termination
  apply (relation "measure (\<lambda>(ck, goalItems, shelves, collectionPoint, obstacles, gridSize, st, iters).
                     Suc maxIterations - iters)")
   apply simp
  apply (auto simp: plannerBody_def split: prod.splits if_splits)
  done

text \<open>
  The state of the search before the first round: the initial state is in the open set
  with the priority \<open>initialHeuristic\<close>, and its g-score is 0.
\<close>

definition initialPlanState :: "(string \<Rightarrow> 'k::linorder) \<Rightarrow> WorldState \<Rightarrow> enat \<Rightarrow> planState" where
  "initialPlanState ck initialState initialHeuristic =
     (let startStateKey = stateToString ck initialState
      in (enqueue (initialState, []) initialHeuristic [],
          [startStateKey \<mapsto> 0], [startStateKey \<mapsto> initialHeuristic]))"

text \<open>
  The result of \<open>aStarPlanner\<close> is the returned value (\<open>None\<close> is \<^verbatim>\<open>null\<close>) with the lines
  written with \<^verbatim>\<open>console.error\<close>, or \<open>None\<close> for a call that never returns.
\<close>

definition aStarPlanner ::
  "(string \<Rightarrow> 'k::linorder) \<Rightarrow> WorldState \<Rightarrow> string list \<Rightarrow> Shelf list \<Rightarrow> Point \<Rightarrow> Point list \<Rightarrow> int \<Rightarrow>
   (PlannerResult option \<times> string list) option" where
  "aStarPlanner ck initialState goalItems shelves collectionPoint obstacles gridSize =
     (case heuristic initialState goalItems collectionPoint obstacles gridSize of
        None \<Rightarrow> None
      | Some initialHeuristic \<Rightarrow>
          plannerLoop ck goalItems shelves collectionPoint obstacles gridSize
            (initialPlanState ck initialState initialHeuristic) 0)"

text \<open>
  The state of the search after \<open>k\<close> rounds of the main loop, when none of them ends
  the call.
\<close>

fun plannerRounds ::
  "(string \<Rightarrow> 'k::linorder) \<Rightarrow> string list \<Rightarrow> Shelf list \<Rightarrow> Point \<Rightarrow> Point list \<Rightarrow> int \<Rightarrow>
   planState \<Rightarrow> nat \<Rightarrow> nat \<Rightarrow> planState option" where
  "plannerRounds ck goalItems shelves collectionPoint obstacles gridSize st iters 0 = Some st"
| "plannerRounds ck goalItems shelves collectionPoint obstacles gridSize st iters (Suc k) =
     (case plannerBody ck goalItems shelves collectionPoint obstacles gridSize st iters of
        Some (Inr st') \<Rightarrow>
          plannerRounds ck goalItems shelves collectionPoint obstacles gridSize st' (Suc iters) k
      | _ \<Rightarrow> None)"

section \<open>Notions used by the properties\<close>

text \<open>
  Two points are one step apart when they differ by exactly one unit in exactly one
  coordinate; a path is contiguous when consecutive points are one step apart.
\<close>

definition unitStep :: "Point \<Rightarrow> Point \<Rightarrow> bool" where
  "unitStep p q = ((\<bar>x p - x q\<bar> = 1 \<and> y p = y q) \<or> (x p = x q \<and> \<bar>y p - y q\<bar> = 1))"


definition inGrid :: "int \<Rightarrow> Point \<Rightarrow> bool" where
  "inGrid gridSize p = (0 \<le> x p \<and> x p < gridSize \<and> 0 \<le> y p \<and> y p < gridSize)"

text \<open>
  The items whose location tag is \<^verbatim>\<open>"robot"\<close>, and the invariant of the world states:
  nothing is held and no item is on the robot, or one item is held and it is the only
  item on the robot.
\<close>

definition robotItems :: "WorldState \<Rightarrow> string list" where
  "robotItems state =
     filter (\<lambda>item. map_of (itemLocations state) item = Some ''robot'')
       (map fst (itemLocations state))"

definition stateInvariant :: "WorldState \<Rightarrow> bool" where
  "stateInvariant state =
     (case holding state of
        None \<Rightarrow> set (robotItems state) = {}
      | Some held \<Rightarrow> set (robotItems state) = {held})"

text \<open>
  A collation for the examples: the order of the strings by their code units, which
  tells any two different identifiers apart.
\<close>

definition codeUnits :: "string \<Rightarrow> nat list" where
  "codeUnits s = map of_char s"

definition pt :: "int \<Rightarrow> int \<Rightarrow> Point" where
  "pt a b = \<lparr>x = a, y = b\<rparr>"

text \<open>
  The invariant of the grid search. A cell is valid when it is on the grid and not an
  obstacle. \<^verbatim>\<open>cameFrom\<close> is linked when each of its entries leads from a valid cell to
  a cell one step away that is the start or has an entry itself; a cell is known when it
  is the start or has an entry.
\<close>

definition validCell :: "Point list \<Rightarrow> int \<Rightarrow> Point \<Rightarrow> bool" where
  "validCell obstacles gridSize p = (inGrid gridSize p \<and> p \<notin> set obstacles)"

definition linked :: "Point \<Rightarrow> Point list \<Rightarrow> int \<Rightarrow> (string \<rightharpoonup> string) \<Rightarrow> bool" where
  "linked start obstacles gridSize cameFrom =
     (\<forall>k k'. cameFrom k = Some k' \<longrightarrow>
        (\<exists>p p'. k = pointToString p \<and> k' = pointToString p' \<and> validCell obstacles gridSize p
           \<and> unitStep p' p \<and> (p' = start \<or> k' \<in> dom cameFrom)))"

definition known :: "Point \<Rightarrow> (string \<rightharpoonup> string) \<Rightarrow> Point \<Rightarrow> bool" where
  "known start cameFrom p = (p = start \<or> pointToString p \<in> dom cameFrom)"

text \<open>
  Two states of \<^verbatim>\<open>cameFrom\<close> seen from the start cell. It is fresh while the start has
  no entry, still has the g-score 0, and every entry leads to the start. It is cyclic
  once the start has an entry and every entry leads to a cell with an entry: then no
  walk along \<^verbatim>\<open>cameFrom\<close> ends.
\<close>

definition fresh :: "Point \<Rightarrow> (string \<rightharpoonup> string) \<Rightarrow> (string \<rightharpoonup> nat) \<Rightarrow> bool" where
  "fresh start cameFrom gScore =
     (cameFrom (pointToString start) = None \<and> gScore (pointToString start) = Some 0
      \<and> (\<forall>k k'. cameFrom k = Some k' \<longrightarrow> k' = pointToString start))"

definition cyclic :: "Point \<Rightarrow> (string \<rightharpoonup> string) \<Rightarrow> bool" where
  "cyclic start cameFrom =
     (pointToString start \<in> dom cameFrom
      \<and> (\<forall>k k'. cameFrom k = Some k' \<longrightarrow> k' \<in> dom cameFrom))"

text \<open>
  The invariant of the outer search: every entry of the open set holds the state that
  its action list leads to from the initial state.
\<close>

definition tracks :: "WorldState \<Rightarrow> ((WorldState \<times> Action list) \<times> enat) list \<Rightarrow> bool" where
  "tracks initialState openSet =
     (\<forall>e \<in> set openSet. fst (fst e) = foldl applyAction initialState (snd (fst e)))"

subsection \<open>Example worlds\<close>

definition shelfS1 :: Shelf where
  "shelfS1 = \<lparr>id_Shelf = ''S1'', items = [''ItemA''], pos = pt 1 0\<rparr>"

definition shelfS2 :: Shelf where
  "shelfS2 = \<lparr>id_Shelf = ''S2'', items = [''ItemB''], pos = pt 0 1\<rparr>"

definition startState :: WorldState where
  "startState = \<lparr>robotPos = pt 0 0, holding = None, itemLocations = [(''ItemA'', ''S1'')]\<rparr>"

definition atShelfState :: WorldState where
  "atShelfState = \<lparr>robotPos = pt 1 0, holding = None, itemLocations = [(''ItemA'', ''S1'')]\<rparr>"

definition carryingState :: WorldState where
  "carryingState =
     \<lparr>robotPos = pt 1 0, holding = Some ''ItemA'', itemLocations = [(''ItemA'', ''robot'')]\<rparr>"

text \<open>A state whose held item has the empty string as its identifier.\<close>

definition unnamedHeldAt :: "Point \<Rightarrow> WorldState" where
  "unnamedHeldAt p =
     \<lparr>robotPos = p, holding = Some [],
      itemLocations = [([], ''robot''), (''ItemA'', ''S1''), (''ItemB'', ''S2'')]\<rparr>"

text \<open>
  A world with two shelves on neighbouring cells, the robot starting on the first and
  the collection point on the second.
\<close>

definition revisitShelves :: "Shelf list" where
  "revisitShelves =
     [\<lparr>id_Shelf = ''S1'', items = [''ItemA''], pos = pt 0 0\<rparr>,
      \<lparr>id_Shelf = ''S2'', items = [''ItemB''], pos = pt 1 0\<rparr>]"

definition revisitInitial :: WorldState where
  "revisitInitial =
     \<lparr>robotPos = pt 0 0, holding = None,
      itemLocations = [(''ItemA'', ''S1''), (''ItemB'', ''S2'')]\<rparr>"

text \<open>Two states with the same entries of \<open>itemLocations\<close> in different orders.\<close>

definition orderedAB :: WorldState where
  "orderedAB =
     \<lparr>robotPos = pt 2 3, holding = None,
      itemLocations = [(''ItemA'', ''S1''), (''ItemB'', ''collectionPoint'')]\<rparr>"

definition orderedBA :: WorldState where
  "orderedBA =
     \<lparr>robotPos = pt 2 3, holding = None,
      itemLocations = [(''ItemB'', ''collectionPoint''), (''ItemA'', ''S1'')]\<rparr>"

text \<open>A shelf that stocks an item with the identifier \<^verbatim>\<open>__proto__\<close>, and the robot at it.\<close>

definition protoShelf :: Shelf where
  "protoShelf = \<lparr>id_Shelf = ''S9'', items = [''__proto__''], pos = pt 1 0\<rparr>"

definition protoState :: WorldState where
  "protoState = \<lparr>robotPos = pt 1 0, holding = None, itemLocations = [(''ItemA'', ''S1'')]\<rparr>"

text \<open>
  A collation with ties, as the host's has: it ignores the control characters, so it
  gives 0 for the identifiers \<^verbatim>\<open>"A"\<close> and \<^verbatim>\<open>"A\u0001"\<close>. Two states hold these two items
  in the two orders of creation.
\<close>

definition ignoringControls :: "string \<Rightarrow> nat list" where
  "ignoringControls s = map of_char (filter (\<lambda>c. (32::nat) \<le> of_char c) s)"

definition tiedAB :: WorldState where
  "tiedAB =
     \<lparr>robotPos = pt 2 3, holding = None,
      itemLocations = [(''A'', ''S1''), ([CHR ''A'', CHR 0x01], ''S2'')]\<rparr>"

definition tiedBA :: WorldState where
  "tiedBA =
     \<lparr>robotPos = pt 2 3, holding = None,
      itemLocations = [([CHR ''A'', CHR 0x01], ''S2''), (''A'', ''S1'')]\<rparr>"

subsection \<open>A world that exhausts the budget\<close>

text \<open>
  A world in which everything is on one cell: the robot, the collection point and one
  shelf that stocks \<open>n\<close> wanted items \<^verbatim>\<open>i0\<close>, \<^verbatim>\<open>i1\<close>, ... The search has one way to go:
  pick the first item that is still on the shelf, drop it, pick the next one.
  \<open>chainState n t\<close> is the state after \<open>t\<close> of these actions.
\<close>

definition chainItem :: "nat \<Rightarrow> string" where
  "chainItem j = CHR ''i'' # digitsOf j"

definition chainItems :: "nat \<Rightarrow> string list" where
  "chainItems n = map chainItem [0..<n]"

definition chainShelf :: "nat \<Rightarrow> Shelf" where
  "chainShelf n = \<lparr>id_Shelf = ''S'', items = chainItems n, pos = pt 0 0\<rparr>"

definition chainInitial :: "nat \<Rightarrow> WorldState" where
  "chainInitial n =
     \<lparr>robotPos = pt 0 0, holding = None, itemLocations = map (\<lambda>i. (i, ''S'')) (chainItems n)\<rparr>"

definition chainTag :: "nat \<Rightarrow> nat \<Rightarrow> string" where
  "chainTag t j =
     (if j < t div 2 then ''collectionPoint''
      else if j = t div 2 \<and> odd t then ''robot'' else ''S'')"

definition chainState :: "nat \<Rightarrow> nat \<Rightarrow> WorldState" where
  "chainState n t =
     \<lparr>robotPos = pt 0 0,
      holding = (if odd t then Some (chainItem (t div 2)) else None),
      itemLocations = map (\<lambda>j. (chainItem j, chainTag t j)) [0..<n]\<rparr>"

definition chainAction :: "nat \<Rightarrow> Action" where
  "chainAction t =
     (if odd t then DROP (chainItem (t div 2)) 1 else PICK (chainItem (t div 2)) ''S'' 1)"

text \<open>
  The states of the search along the chain: the open set holds the state after \<open>t\<close>
  actions and nothing else, and no recorded key is longer than the key of that state.
\<close>

definition chainSearch :: "(string \<Rightarrow> 'k::linorder) \<Rightarrow> nat \<Rightarrow> nat \<Rightarrow> planState \<Rightarrow> bool" where
  "chainSearch ck n t st =
     (case st of (openSet, gScore, fScore) \<Rightarrow>
        (\<exists>p f. openSet = [((chainState n t, p), f)])
        \<and> (\<forall>k \<in> dom gScore. length k \<le> length (stateToString ck (chainState n t))))"

section \<open>Keys are faithful\<close>

text \<open>
  \<open>stringToPoint\<close> reads back what \<open>pointToString\<close> writes, so two different cells
  never share a key.
\<close>

lemma digit_cases:
  assumes "d < (10::nat)"
  obtains "d = 0" | "d = 1" | "d = 2" | "d = 3" | "d = 4" | "d = 5" | "d = 6" | "d = 7"
    | "d = 8" | "d = 9"
  using assms by atomize_elim arith

lemma digitVal_digitChar: "d < 10 \<Longrightarrow> digitVal (digitChar d) = d"
  by (erule digit_cases) (simp_all add: digitVal_def digitChar_def)

lemma digitChar_plain: "d < 10 \<Longrightarrow> digitChar d \<noteq> CHR '','' \<and> digitChar d \<noteq> CHR ''-''"
  by (erule digit_cases) (simp_all add: digitChar_def)

declare digitsOf.simps [simp del]

lemma digitsOf_value: "foldl (\<lambda>a c. 10 * a + digitVal c) 0 (digitsOf n) = n"
proof (induction n rule: digitsOf.induct)
  case (1 n)
  show ?case
  proof (cases "n < 10")
    case True
    then show ?thesis by (subst digitsOf.simps) (simp add: digitVal_digitChar)
  next
    case False
    with 1 show ?thesis by (subst digitsOf.simps) (simp add: digitVal_digitChar)
  qed
qed

lemma digitsOf_plain: "c \<in> set (digitsOf n) \<Longrightarrow> c \<noteq> CHR '','' \<and> c \<noteq> CHR ''-''"
proof (induction n rule: digitsOf.induct)
  case (1 n)
  show ?case
  proof (cases "n < 10")
    case True
    with 1(2) show ?thesis by (subst (asm) digitsOf.simps) (simp add: digitChar_plain)
  next
    case False
    with 1 show ?thesis by (subst (asm) (2) digitsOf.simps) (auto simp add: digitChar_plain)
  qed
qed

lemma digitsOf_nonempty: "digitsOf n \<noteq> []"
  by (subst digitsOf.simps) simp

lemma hd_digitsOf: "hd (digitsOf n) \<noteq> CHR ''-''"
  using digitsOf_plain [of "hd (digitsOf n)" n] digitsOf_nonempty [of n] by simp

lemma toNumber_showInt: "toNumber (showInt i) = i"
  by (simp add: toNumber_def showInt_def digitsOf_value hd_digitsOf digitsOf_nonempty)

lemma showInt_no_comma: "c \<in> set (showInt i) \<Longrightarrow> c \<noteq> CHR '',''"
  by (auto simp: showInt_def dest: digitsOf_plain split: if_splits)

lemma stringToPoint_pointToString: "stringToPoint (pointToString p) = p"
proof -
  have a: "takeWhile (\<lambda>c. c \<noteq> CHR '','') (showInt (x p) @ CHR '','' # showInt (y p)) = showInt (x p)"
    by (simp add: takeWhile_append2 showInt_no_comma)
  have b: "dropWhile (\<lambda>c. c \<noteq> CHR '','') (showInt (x p) @ CHR '','' # showInt (y p))
             = CHR '','' # showInt (y p)"
    by (simp add: dropWhile_append2 showInt_no_comma)
  have c: "takeWhile (\<lambda>c. c \<noteq> CHR '','') (showInt (y p)) = showInt (y p)"
    by (simp add: takeWhile_eq_all_conv showInt_no_comma)
  show ?thesis
    by (simp add: stringToPoint_def pointToString_def a b c toNumber_showInt)
qed

lemma pointToString_inj: "pointToString p = pointToString q \<Longrightarrow> p = q"
  by (metis stringToPoint_pointToString)

section \<open>The grid pathfinder\<close>

lemma set_enqueue: "set (enqueue a f q) = insert (a, f) (set q)"
  by (simp add: enqueue_def)

lemma dequeue_enqueue_single: "dequeue (enqueue a p []) = Some (a, [])"
  by (simp add: dequeue_def enqueue_def)

lemma findPath_same: "findPath start start obstacles gridSize = Some (Some [start])"
  unfolding findPath_def
  by (subst findPathLoop.simps) (simp add: dequeue_enqueue_single reconstruct.simps)

text \<open>
  C9: called with the goal equal to the start, \<open>findPath\<close> returns the one-point path
  \<open>[start]\<close>, whatever the obstacles and the grid size are.
\<close>

theorem findPath_start_is_goal:
  "findPath start start obstacles gridSize = Some (Some [start])"
  by (rule findPath_same)

subsection \<open>Runs on small grids\<close>

lemma findPath_east: "findPath (pt 0 0) (pt 1 0) [] 8 = Some (Some [pt 0 0, pt 1 0])"
  by code_simp

lemma findPath_north: "findPath (pt 0 0) (pt 0 1) [] 8 = Some (Some [pt 0 0, pt 0 1])"
  by code_simp

lemma findPath_west: "findPath (pt 1 0) (pt 0 0) [] 8 = Some (Some [pt 1 0, pt 0 0])"
  by code_simp



subsection \<open>The shape of the returned paths\<close>

lemma neighborsOf_valid:
  "n \<in> set (neighborsOf obstacles gridSize current) \<Longrightarrow>
     validCell obstacles gridSize n \<and> unitStep current n"
  unfolding neighborsOf_def set_filter
  by (auto simp: validCell_def inGrid_def unitStep_def dest: pointToString_inj)

lemma relax_keeps:
  assumes "linked start obstacles gridSize cameFrom"
    and "\<forall>e \<in> set openSet. known start cameFrom (fst e)"
    and "known start cameFrom current"
    and "validCell obstacles gridSize n" and "unitStep current n"
    and "relax endP current (openSet, cameFrom, gScore) n = (openSet', cameFrom', gScore')"
  shows "linked start obstacles gridSize cameFrom' \<and> (\<forall>e \<in> set openSet'. known start cameFrom' (fst e))
         \<and> known start cameFrom' current"
proof (cases "enat (orZero (gScore (pointToString current)) + 1) < orInfinity (gScore (pointToString n))")
  case False
  with assms show ?thesis by (simp add: relax_def Let_def)
next
  case True
  with assms(6) have c: "cameFrom' = cameFrom(pointToString n \<mapsto> pointToString current)"
    and o: "set openSet' = insert (n, int (orZero (gScore (pointToString current)) + 1) + manhattanDistance n endP) (set openSet)"
    by (auto simp: relax_def Let_def set_enqueue)
  have mono: "\<And>p. known start cameFrom p \<Longrightarrow> known start cameFrom' p"
    by (auto simp: known_def c)
  have "linked start obstacles gridSize cameFrom'"
    unfolding linked_def
  proof (intro allI impI)
    fix k k' assume kk: "cameFrom' k = Some k'"
    show "\<exists>p p'. k = pointToString p \<and> k' = pointToString p' \<and> validCell obstacles gridSize p
           \<and> unitStep p' p \<and> (p' = start \<or> k' \<in> dom cameFrom')"
    proof (cases "k = pointToString n")
      case True
      with kk c have "k' = pointToString current" by simp
      with True assms(3,4,5) mono show ?thesis
        unfolding known_def by blast
    next
      case False
      with kk c have "cameFrom k = Some k'" by simp
      with assms(1) obtain p p' where "k = pointToString p" "k' = pointToString p'"
        "validCell obstacles gridSize p" "unitStep p' p" "p' = start \<or> k' \<in> dom cameFrom"
        unfolding linked_def by blast
      then show ?thesis using c by auto
    qed
  qed
  moreover have "\<forall>e \<in> set openSet'. known start cameFrom' (fst e)"
    using assms(2) mono o by (auto simp: known_def c)
  ultimately show ?thesis using mono assms(3) by simp
qed

lemma foldl_relax_keeps:
  assumes "\<forall>n \<in> set ns. validCell obstacles gridSize n \<and> unitStep current n"
    and "linked start obstacles gridSize cameFrom"
    and "\<forall>e \<in> set openSet. known start cameFrom (fst e)"
    and "known start cameFrom current"
    and "foldl (relax endP current) (openSet, cameFrom, gScore) ns = (openSet', cameFrom', gScore')"
  shows "linked start obstacles gridSize cameFrom' \<and> (\<forall>e \<in> set openSet'. known start cameFrom' (fst e))"
  using assms
proof (induction ns arbitrary: openSet cameFrom gScore)
  case Nil
  then show ?case by simp
next
  case (Cons n ns)
  obtain o1 c1 g1 where r: "relax endP current (openSet, cameFrom, gScore) n = (o1, c1, g1)"
    by (metis prod_cases3)
  from Cons.prems have "validCell obstacles gridSize n" "unitStep current n" by auto
  from relax_keeps [OF Cons.prems(2,3,4) this r]
  have k: "linked start obstacles gridSize c1" "\<forall>e \<in> set o1. known start c1 (fst e)" "known start c1 current"
    by auto
  from Cons.prems(5) r have "foldl (relax endP current) (o1, c1, g1) ns = (openSet', cameFrom', gScore')"
    by simp
  with Cons.IH [OF _ k] Cons.prems(1) show ?case by simp
qed






subsection \<open>A goal two steps away\<close>

lemma reconstruct_avoids_closed:
  "reconstruct cf k p = Some r \<Longrightarrow> \<forall>k\<in>C. \<exists>k'\<in>C. cf k = Some k' \<Longrightarrow> k \<notin> C"
proof (induction cf k p r rule: reconstruct.raw_induct [rotated 1, consumes 1])
  case (1 rec cf k p r)
  show ?case
  proof
    assume "k \<in> C"
    with 1(3) obtain k' where k': "k' \<in> C" "cf k = Some k'" by auto
    with 1(2) have "rec cf k' (stringToPoint k # p) = Some r" by simp
    with 1(1) 1(3) k' show False by blast
  qed
qed

lemma reconstruct_closed_None:
  assumes closed: "\<forall>k\<in>C. \<exists>k'\<in>C. cameFrom k = Some k'" and mem: "k \<in> C"
  shows "reconstruct cameFrom k pth = None"
  using reconstruct_avoids_closed [OF _ closed, of k pth] mem
  by (cases "reconstruct cameFrom k pth") auto

text \<open>
  From a start that is a valid cell, the only paths that \<open>findPath\<close> returns are
  \<open>[start]\<close> and the two-point path to a neighbour: as soon as a neighbour of the start
  is expanded, \<^verbatim>\<open>cameFrom\<close> is cyclic, and the walk back from a popped goal never ends.
\<close>

lemma relax_cases:
  assumes "relax endP current (openSet, cameFrom, gScore) n = (openSet', cameFrom', gScore')"
  obtains "cameFrom' = cameFrom" and "gScore' = gScore"
        and "\<not> enat (orZero (gScore (pointToString current)) + 1) < orInfinity (gScore (pointToString n))"
    | "cameFrom' = cameFrom(pointToString n \<mapsto> pointToString current)"
        and "gScore' = gScore(pointToString n \<mapsto> orZero (gScore (pointToString current)) + 1)"
  using assms by (auto simp: relax_def Let_def split: if_splits)

lemma neighborsOf_not_current: "n \<in> set (neighborsOf obstacles gridSize current) \<Longrightarrow> n \<noteq> current"
  using neighborsOf_valid [of n obstacles gridSize current] by (auto simp: unitStep_def)

lemma neighborsOf_contains:
  assumes "validCell obstacles gridSize p" and "unitStep p current"
  shows "p \<in> set (neighborsOf obstacles gridSize current)"
proof -
  from assms(2) have "p \<in> set [\<lparr>x = x current + 1, y = y current\<rparr>, \<lparr>x = x current - 1, y = y current\<rparr>,
        \<lparr>x = x current, y = y current + 1\<rparr>, \<lparr>x = x current, y = y current - 1\<rparr>]"
    by (cases p) (auto simp: unitStep_def abs_if split: if_splits)
  moreover from assms(1) have "x p \<ge> 0 \<and> x p < gridSize \<and> y p \<ge> 0 \<and> y p < gridSize
      \<and> pointToString p \<notin> set (map pointToString obstacles)"
    by (auto simp: validCell_def inGrid_def dest: pointToString_inj)
  ultimately show ?thesis
    unfolding neighborsOf_def set_filter by blast
qed

lemma foldl_relax_fresh:
  assumes "\<forall>n \<in> set ns. n \<noteq> start"
    and "fresh start cameFrom gScore"
    and "foldl (relax endP start) (openSet, cameFrom, gScore) ns = (openSet', cameFrom', gScore')"
  shows "fresh start cameFrom' gScore'"
  using assms
proof (induction ns arbitrary: openSet cameFrom gScore)
  case Nil
  then show ?case by simp
next
  case (Cons n ns)
  obtain o1 c1 g1 where r: "relax endP start (openSet, cameFrom, gScore) n = (o1, c1, g1)"
    by (metis prod_cases3)
  from Cons.prems(1) have "pointToString n \<noteq> pointToString start"
    by (auto dest: pointToString_inj)
  with r Cons.prems(2) have "fresh start c1 g1"
    by (elim relax_cases) (auto simp: fresh_def)
  moreover from Cons.prems(3) r have "foldl (relax endP start) (o1, c1, g1) ns = (openSet', cameFrom', gScore')"
    by simp
  ultimately show ?case using Cons.IH Cons.prems(1) by simp
qed

lemma foldl_relax_cyclic:
  assumes "\<forall>n \<in> set ns. n \<noteq> current"
    and "pointToString current \<in> dom cameFrom"
    and "cyclic start cameFrom
         \<or> (start \<in> set ns \<and> cameFrom (pointToString start) = None
             \<and> gScore (pointToString start) = Some 0
             \<and> (\<forall>k k'. cameFrom k = Some k'
                   \<longrightarrow> k' = pointToString start \<or> k' = pointToString current))"
    and "foldl (relax endP current) (openSet, cameFrom, gScore) ns = (openSet', cameFrom', gScore')"
  shows "cyclic start cameFrom'"
  using assms
proof (induction ns arbitrary: openSet cameFrom gScore)
  case Nil
  then show ?case by simp
next
  case (Cons n ns)
  obtain o1 c1 g1 where r: "relax endP current (openSet, cameFrom, gScore) n = (o1, c1, g1)"
    by (metis prod_cases3)
  from Cons.prems(1) have nc: "pointToString n \<noteq> pointToString current"
    by (auto dest: pointToString_inj)
  from r Cons.prems(2) have d: "pointToString current \<in> dom c1"
    by (elim relax_cases) auto
  have "cyclic start c1
         \<or> (start \<in> set ns \<and> c1 (pointToString start) = None
             \<and> g1 (pointToString start) = Some 0
             \<and> (\<forall>k k'. c1 k = Some k' \<longrightarrow> k' = pointToString start \<or> k' = pointToString current))"
  proof (cases "cyclic start cameFrom")
    case True
    with r Cons.prems(2) have "cyclic start c1"
      by (elim relax_cases) (auto simp: cyclic_def)
    then show ?thesis ..
  next
    case False
    with Cons.prems(3) have s: "start \<in> set (n # ns)" "cameFrom (pointToString start) = None"
      "gScore (pointToString start) = Some 0"
      "\<forall>k k'. cameFrom k = Some k' \<longrightarrow> k' = pointToString start \<or> k' = pointToString current"
      by auto
    show ?thesis
    proof (cases "n = start")
      case True
      with s(3) have "enat (orZero (gScore (pointToString current)) + 1) < orInfinity (gScore (pointToString n))"
        by (simp add: orInfinity_def)
      with r have c: "c1 = cameFrom(pointToString start \<mapsto> pointToString current)"
        using True by (elim relax_cases) auto
      have "cyclic start c1"
        unfolding cyclic_def c using s(4) Cons.prems(2) by (auto split: if_splits)
      then show ?thesis ..
    next
      case False
      then have ns: "pointToString n \<noteq> pointToString start"
        by (auto dest: pointToString_inj)
      from False s(1) have "start \<in> set ns" by simp
      moreover from r s(2) ns have "c1 (pointToString start) = None"
        by (elim relax_cases) auto
      moreover from r s(3) ns have "g1 (pointToString start) = Some 0"
        by (elim relax_cases) auto
      moreover from r s(4) have "\<forall>k k'. c1 k = Some k'
          \<longrightarrow> k' = pointToString start \<or> k' = pointToString current"
        by (elim relax_cases) (auto split: if_splits)
      ultimately show ?thesis by blast
    qed
  qed
  moreover from Cons.prems(4) r have "foldl (relax endP current) (o1, c1, g1) ns = (openSet', cameFrom', gScore')"
    by simp
  ultimately show ?case using Cons.IH [OF _ d] Cons.prems(1) by simp
qed

lemma findPathLoop_nearby:
  "findPathLoop start endP obstacles gridSize st = Some r \<Longrightarrow>
   st = (openSet, cameFrom, gScore) \<Longrightarrow> r = Some pth \<Longrightarrow>
   validCell obstacles gridSize start \<Longrightarrow>
   linked start obstacles gridSize cameFrom \<Longrightarrow>
   \<forall>e \<in> set openSet. known start cameFrom (fst e) \<Longrightarrow>
   fresh start cameFrom gScore \<or> cyclic start cameFrom \<Longrightarrow>
   (pth = [start] \<and> endP = start) \<or> (pth = [start, endP] \<and> unitStep start endP)"
proof (induction start endP obstacles gridSize st r arbitrary: openSet cameFrom gScore
    rule: findPathLoop.raw_induct [rotated 1, consumes 1])
  case (1 loop start endP obstacles gridSize st r)
  note valid = 1(5) and lnk = 1(6) and kn = 1(7) and fc = 1(8)
  from 1(2,3) obtain current f rest where q: "openSet = (current, f) # rest"
    by (cases openSet) (auto simp: dequeue_def 1(4))
  then have kc: "known start cameFrom current" using kn by simp
  have parent: "cameFrom (pointToString current) = Some (pointToString start)
                \<and> validCell obstacles gridSize current \<and> unitStep start current"
    if "fresh start cameFrom gScore" and "current \<noteq> start"
  proof -
    from kc that(2) obtain k' where k': "cameFrom (pointToString current) = Some k'"
      by (auto simp: known_def)
    with that(1) have ks: "k' = pointToString start" by (simp add: fresh_def)
    from k' lnk obtain p p' where pp: "pointToString current = pointToString p"
      "k' = pointToString p'" "validCell obstacles gridSize p" "unitStep p' p"
      unfolding linked_def by blast
    from pp(1) have "current = p" by (rule pointToString_inj)
    moreover from pp(2) ks have "start = p'" by (intro pointToString_inj) simp
    ultimately show ?thesis using k' ks pp(3,4) by simp
  qed
  show ?case
  proof (cases "x current = x endP \<and> y current = y endP")
    case True
    then have ce: "current = endP" by simp
    from True 1(2,3,4) q obtain res where res: "reconstruct cameFrom (pointToString current) [] = Some res"
      and p: "pth = start # res"
      by (auto simp: dequeue_def split: option.splits)
    from fc show ?thesis
    proof
      assume fr: "fresh start cameFrom gScore"
      show ?thesis
      proof (cases "current = start")
        case True
        from fr have "cameFrom (pointToString start) = None" by (simp add: fresh_def)
        with res True have "res = []"
          by (subst (asm) reconstruct.simps) simp
        with p True ce show ?thesis by simp
      next
        case False
        from fr have n: "cameFrom (pointToString start) = None" by (simp add: fresh_def)
        from parent [OF fr False] res
        have "reconstruct cameFrom (pointToString start) [current] = Some res"
          by (subst (asm) reconstruct.simps) (simp add: stringToPoint_pointToString)
        with n have "res = [current]"
          by (subst (asm) reconstruct.simps) simp
        with p ce parent [OF fr False] show ?thesis by simp
      qed
    next
      assume cy: "cyclic start cameFrom"
      with kc have "pointToString current \<in> dom cameFrom"
        by (auto simp: known_def cyclic_def)
      moreover from cy have "\<forall>k\<in>dom cameFrom. \<exists>k'\<in>dom cameFrom. cameFrom k = Some k'"
        by (auto simp: cyclic_def)
      ultimately have "reconstruct cameFrom (pointToString current) [] = None"
        by (intro reconstruct_closed_None [where C = "dom cameFrom"])
      with res show ?thesis by simp
    qed
  next
    case False
    obtain o1 c1 g1 where f: "foldl (relax endP current) (rest, cameFrom, gScore)
        (neighborsOf obstacles gridSize current) = (o1, c1, g1)"
      by (metis prod_cases3)
    with False 1(2,3) q have l: "loop start endP obstacles gridSize (o1, c1, g1) = Some r"
      by (auto simp: dequeue_def)
    have k1: "linked start obstacles gridSize c1 \<and> (\<forall>e \<in> set o1. known start c1 (fst e))"
    proof (rule foldl_relax_keeps [OF _ lnk _ kc f])
      show "\<forall>n\<in>set (neighborsOf obstacles gridSize current).
          validCell obstacles gridSize n \<and> unitStep current n"
        by (simp add: neighborsOf_valid)
      show "\<forall>e\<in>set rest. known start cameFrom (fst e)" using kn q by simp
    qed
    have nc: "\<forall>n \<in> set (neighborsOf obstacles gridSize current). n \<noteq> current"
      by (simp add: neighborsOf_not_current)
    have fc1: "fresh start c1 g1 \<or> cyclic start c1"
    proof (cases "fresh start cameFrom gScore \<and> current = start")
      case True
      then have fr: "fresh start cameFrom gScore" and cs: "current = start" by simp_all
      from nc cs have ns: "\<forall>n \<in> set (neighborsOf obstacles gridSize current). n \<noteq> start"
        by simp
      from f cs have f': "foldl (relax endP start) (rest, cameFrom, gScore)
          (neighborsOf obstacles gridSize current) = (o1, c1, g1)"
        by simp
      from foldl_relax_fresh [OF ns fr f'] show ?thesis ..
    next
      case False
      have d: "pointToString current \<in> dom cameFrom"
      proof (cases "fresh start cameFrom gScore")
        case True
        with False have "current \<noteq> start" by simp
        from parent [OF True this]
        have "cameFrom (pointToString current) = Some (pointToString start)" by simp
        then show ?thesis by (rule domI)
      next
        case False
        with fc have "cyclic start cameFrom" by simp
        then have "pointToString start \<in> dom cameFrom" by (simp add: cyclic_def)
        with kc show ?thesis by (cases "current = start") (simp_all add: known_def)
      qed
      have "cyclic start c1"
      proof (rule foldl_relax_cyclic [OF nc d _ f])
        show "cyclic start cameFrom
              \<or> (start \<in> set (neighborsOf obstacles gridSize current)
                  \<and> cameFrom (pointToString start) = None \<and> gScore (pointToString start) = Some 0
                  \<and> (\<forall>k k'. cameFrom k = Some k'
                        \<longrightarrow> k' = pointToString start \<or> k' = pointToString current))"
        proof (cases "fresh start cameFrom gScore")
          case True
          with False have ns: "current \<noteq> start" by simp
          from parent [OF True ns] have "unitStep start current" by simp
          with valid have "start \<in> set (neighborsOf obstacles gridSize current)"
            by (rule neighborsOf_contains)
          moreover from True have "cameFrom (pointToString start) = None"
            and "gScore (pointToString start) = Some 0"
            and "\<forall>k k'. cameFrom k = Some k' \<longrightarrow> k' = pointToString start \<or> k' = pointToString current"
            by (simp_all add: fresh_def)
          ultimately show ?thesis by blast
        next
          case False
          with fc show ?thesis by simp
        qed
      qed
      then show ?thesis ..
    qed
    from k1 have "linked start obstacles gridSize c1" and "\<forall>e \<in> set o1. known start c1 (fst e)"
      by simp_all
    from 1(1) [OF l refl 1(4) valid this fc1] show ?thesis .
  qed
qed

lemma findPath_nearby:
  assumes "validCell obstacles gridSize start"
    and "findPath start endP obstacles gridSize = Some (Some pth)"
  shows "(pth = [start] \<and> endP = start) \<or> (pth = [start, endP] \<and> unitStep start endP)"
proof -
  have "linked start obstacles gridSize Map.empty" by (simp add: linked_def)
  moreover have "\<forall>e \<in> set (enqueue start (manhattanDistance start endP) []). known start Map.empty (fst e)"
    by (simp add: set_enqueue known_def)
  moreover have "fresh start Map.empty [pointToString start \<mapsto> 0]"
    by (simp add: fresh_def)
  ultimately show ?thesis
    using findPathLoop_nearby [OF assms(2) [unfolded findPath_def] refl refl assms(1)]
    by simp
qed

lemma findPath_far_goal:
  assumes "validCell obstacles gridSize start" and "2 \<le> manhattanDistance start endP"
  shows "findPath start endP obstacles gridSize \<noteq> Some (Some pth)"
proof
  assume "findPath start endP obstacles gridSize = Some (Some pth)"
  from findPath_nearby [OF assms(1) this] assms(2) show False
    by (auto simp: manhattanDistance_def unitStep_def)
qed

text \<open>
  So from a valid start every returned path is a shortest one; what fails for the
  farther goals is the return itself.
\<close>

lemma findPath_nearby_length:
  assumes "validCell obstacles gridSize start"
    and "findPath start endP obstacles gridSize = Some (Some pth)"
  shows "int (length pth) - 1 = manhattanDistance start endP"
  using findPath_nearby [OF assms] by (auto simp: manhattanDistance_def unitStep_def)

text \<open>
  C1 on the code: on the open 8 by 8 grid, from (0,0) to (2,0), \<open>findPath\<close> never returns.
  The second round expands (1,0), whose neighbour (0,0) has the recorded g-score 0; the
  test reads it as \<^verbatim>\<open>Infinity\<close> and gives the start the entry \<^verbatim>\<open>cameFrom["0,0"] = "1,0"\<close>.
  The third round pops the goal, and the walk back along \<^verbatim>\<open>cameFrom\<close> goes round
  between \<^verbatim>\<open>"0,0"\<close> and \<^verbatim>\<open>"1,0"\<close> without end.
\<close>

theorem findPath_two_steps_never_returns: "findPath (pt 0 0) (pt 2 0) [] 8 = None"
  unfolding findPath_def
  apply (subst findPathLoop.simps)
  apply (simp add: enqueue_def dequeue_def neighborsOf_def relax_def orZero_def orInfinity_def
      pointToString_def showInt_def digitsOf.simps digitChar_def manhattanDistance_def pt_def)
  apply (subst findPathLoop.simps)
  apply (simp add: enqueue_def dequeue_def neighborsOf_def relax_def orZero_def orInfinity_def
      pointToString_def showInt_def digitsOf.simps digitChar_def manhattanDistance_def pt_def)
  apply (subst findPathLoop.simps)
  apply (simp add: enqueue_def dequeue_def neighborsOf_def relax_def orZero_def orInfinity_def
      pointToString_def showInt_def digitsOf.simps digitChar_def manhattanDistance_def pt_def)
  apply (subst reconstruct_closed_None [where C = "{''0,0'', ''1,0'', ''2,0''}"])
    apply simp_all
  done

section \<open>The world model\<close>

subsection \<open>The canonical key\<close>

lemma sort_entries_eq:
  assumes d1: "distinct (map fst l1)" and d2: "distinct (map fst l2)"
    and s: "set l1 = set l2" and inj: "inj_on ck (fst ` set l1)"
  shows "sort_key (\<lambda>(a, _). ck a) l1 = sort_key (\<lambda>(a, _). ck a) l2"
proof (rule sort_key_inj_key_eq)
  have "distinct l1" "distinct l2" using d1 d2 by (simp_all add: distinct_map)
  then have "mset l1 = mset l2" using s by (simp add: set_eq_iff_mset_eq_distinct)
  then show "mset l1 = mset (sort_key (\<lambda>(a, _). ck a) l2)" by simp
  show "inj_on (\<lambda>(a, _). ck a) (set l1)"
  proof (rule inj_onI)
    fix p q assume p: "p \<in> set l1" and q: "q \<in> set l1"
      and e: "(case p of (a, _) \<Rightarrow> ck a) = (case q of (a, _) \<Rightarrow> ck a)"
    then have "ck (fst p) = ck (fst q)" by (simp add: case_prod_beta)
    with inj p q have "fst p = fst q" by (auto dest: inj_onD)
    with d1 p q show "p = q" by (metis eq_key_imp_eq_value prod.collapse)
  qed
  show "sorted (map (\<lambda>(a, _). ck a) (sort_key (\<lambda>(a, _). ck a) l2))" by simp
qed

text \<open>
  When the collation tells the identifiers of the items apart, two states with the same
  entries in any two orders have the same key.
\<close>

lemma stateToString_separated:
  assumes "robotPos s1 = robotPos s2" and "holding s1 = holding s2"
    and "distinct (map fst (itemLocations s1))" and "distinct (map fst (itemLocations s2))"
    and "set (itemLocations s1) = set (itemLocations s2)"
    and "inj_on ck (fst ` set (itemLocations s1))"
  shows "stateToString ck s1 = stateToString ck s2"
  using assms sort_entries_eq [of "itemLocations s1" "itemLocations s2" ck]
  by (simp add: stateToString_def)

lemma inj_codeUnits: "inj_on codeUnits A"
  by (simp add: codeUnits_def inj_on_def)

lemma stateToString_separated_example:
  "itemLocations orderedAB \<noteq> itemLocations orderedBA
   \<and> stateToString codeUnits orderedAB = stateToString codeUnits orderedBA"
proof
  show "itemLocations orderedAB \<noteq> itemLocations orderedBA"
    by (simp add: orderedAB_def orderedBA_def)
  show "stateToString codeUnits orderedAB = stateToString codeUnits orderedBA"
  proof (rule stateToString_separated)
    show "set (itemLocations orderedAB) = set (itemLocations orderedBA)"
      by (auto simp: orderedAB_def orderedBA_def)
    show "inj_on codeUnits (fst ` set (itemLocations orderedAB))"
      by (rule inj_codeUnits)
  qed (simp_all add: orderedAB_def orderedBA_def)
qed

text \<open>
  Whatever the collation, when it gives 0 for the identifiers \<^verbatim>\<open>"A"\<close> and \<^verbatim>\<open>"A\u0001"\<close>
  the two states \<open>tiedAB\<close> and \<open>tiedBA\<close> have different keys.
\<close>

lemma stateToString_tie:
  assumes "ck ''A'' = ck [CHR ''A'', CHR 0x01]"
  shows "stateToString ck tiedAB \<noteq> stateToString ck tiedBA"
  using assms by (simp add: stateToString_def tiedAB_def tiedBA_def)

text \<open>
  C10 on the code: the comparison \<^verbatim>\<open>a.localeCompare(b)\<close> gives 0 for some pairs of
  different identifiers, and the sort keeps two such entries in the order in which it
  finds them. The two states below have the same robot position, hold nothing and have
  the same two entries, stored in the two orders; the collation ties the two
  identifiers, and the two keys differ.
\<close>

theorem stateToString_tied_identifiers:
  "robotPos tiedAB = robotPos tiedBA \<and> holding tiedAB = holding tiedBA
   \<and> distinct (map fst (itemLocations tiedAB)) \<and> distinct (map fst (itemLocations tiedBA))
   \<and> set (itemLocations tiedAB) = set (itemLocations tiedBA)
   \<and> ignoringControls ''A'' = ignoringControls [CHR ''A'', CHR 0x01]
   \<and> stateToString ignoringControls tiedAB \<noteq> stateToString ignoringControls tiedBA"
  by code_simp

subsection \<open>Successors of a state\<close>

lemma shelfMoves_are_moves:
  "shelfMoves state obstacles gridSize targets = Some moves \<Longrightarrow> a \<in> set moves \<Longrightarrow>
   \<exists>b pth c. a = MOVE (robotPos state) b pth c"
  by (induction targets arbitrary: moves) (auto split: option.splits if_splits)

text \<open>
  C7, as amended: in a state that holds an item with a non-empty identifier,
  \<open>getSuccessors\<close> follows \<open>findPath\<close> from the robot to the collection point. A path
  of more than one point gives exactly one \<open>MOVE\<close> to the collection point with that
  path and the cost of its length minus one; a path of one point gives exactly one
  \<open>DROP\<close> of the held item with cost 1; no path gives no action. So whenever it
  returns, it returns at most one action.
\<close>

theorem getSuccessors_holding:
  assumes "holding state = Some held" and "held \<noteq> []"
  shows "(\<forall>pth. findPath (robotPos state) collectionPoint obstacles gridSize = Some (Some pth)
              \<and> length pth > 1
            \<longrightarrow> getSuccessors state goalItems shelves collectionPoint obstacles gridSize
                  = Some [MOVE (robotPos state) collectionPoint pth (length pth - 1)])
       \<and> (\<forall>pth. findPath (robotPos state) collectionPoint obstacles gridSize = Some (Some pth)
              \<and> length pth = 1
            \<longrightarrow> getSuccessors state goalItems shelves collectionPoint obstacles gridSize
                  = Some [DROP held 1])
       \<and> (findPath (robotPos state) collectionPoint obstacles gridSize = Some None
            \<longrightarrow> getSuccessors state goalItems shelves collectionPoint obstacles gridSize = Some [])
       \<and> (\<forall>actions. getSuccessors state goalItems shelves collectionPoint obstacles gridSize
                = Some actions
            \<longrightarrow> length actions \<le> 1)"
  using assms by (auto simp: getSuccessors_def truthy_def split: option.splits)

theorem getSuccessors_holding_witness:
  "holding carryingState = Some ''ItemA''
   \<and> findPath (robotPos carryingState) (pt 0 0) [] 8 = Some (Some [pt 1 0, pt 0 0])
   \<and> getSuccessors carryingState [''ItemA''] [shelfS1] (pt 0 0) [] 8
       = Some [MOVE (pt 1 0) (pt 0 0) [pt 1 0, pt 0 0] 1]"
  using getSuccessors_holding [where state = carryingState and held = "''ItemA''"
      and collectionPoint = "pt 0 0" and obstacles = "[]" and gridSize = 8
      and goalItems = "[''ItemA'']" and shelves = "[shelfS1]"]
    findPath_west
  by (simp add: carryingState_def)

text \<open>
  C7 as stated fails for a held item whose identifier is the empty string: the test
  \<^verbatim>\<open>if (state.holding)\<close> fails, the branch of the empty hand runs, and here it
  returns two moves, although the path to the collection point has one point.
\<close>

theorem getSuccessors_unnamed_held:
  "holding (unnamedHeldAt (pt 0 0)) \<noteq> None
   \<and> findPath (robotPos (unnamedHeldAt (pt 0 0))) (pt 0 0) [] 8 = Some (Some [pt 0 0])
   \<and> getSuccessors (unnamedHeldAt (pt 0 0)) [''ItemA'', ''ItemB''] [shelfS1, shelfS2] (pt 0 0) [] 8
       = Some [MOVE (pt 0 0) (pt 1 0) [pt 0 0, pt 1 0] 1, MOVE (pt 0 0) (pt 0 1) [pt 0 0, pt 0 1] 1]"
  by (simp add: unnamedHeldAt_def findPath_same getSuccessors_def truthy_def shelfS1_def
      shelfS2_def findPath_east findPath_north)
    (simp add: pt_def)

subsection \<open>The heuristic\<close>

text \<open>
  \<^verbatim>\<open>itemsToGet.length\<close> counts the entries of the list; when no goal item is listed twice
  it is the number of the goal items that are not collected.
\<close>

lemma itemsToGet_card:
  "distinct goalItems \<Longrightarrow> length (filter P goalItems) = card {item \<in> set goalItems. P item}"
  by (simp add: distinct_length_filter Int_def conj_commute)

text \<open>
  C8, as amended: with \<open>itemsToGet\<close> the entries of \<open>goalItems\<close> whose location tag is
  not \<^verbatim>\<open>"collectionPoint"\<close>, the heuristic is 20 times their number when nothing is
  held; when an item with a non-empty identifier is held, it is that plus the number of
  edges of the path that \<open>findPath\<close> returns from the robot to the collection point, and
  infinite when \<open>findPath\<close> returns no path.
\<close>

theorem heuristic_value:
  "(holding state = None \<longrightarrow>
      heuristic state goalItems collectionPoint obstacles gridSize
        = Some (enat (20 * length (filter (\<lambda>item. map_of (itemLocations state) item
                                               \<noteq> Some ''collectionPoint'') goalItems))))
   \<and> (\<forall>held pth. holding state = Some held \<and> held \<noteq> [] \<and>
         findPath (robotPos state) collectionPoint obstacles gridSize = Some (Some pth) \<longrightarrow>
      heuristic state goalItems collectionPoint obstacles gridSize
        = Some (enat (20 * length (filter (\<lambda>item. map_of (itemLocations state) item
                                               \<noteq> Some ''collectionPoint'') goalItems)
                    + (length pth - 1))))
   \<and> (\<forall>held. holding state = Some held \<and> held \<noteq> [] \<and>
         findPath (robotPos state) collectionPoint obstacles gridSize = Some None \<longrightarrow>
      heuristic state goalItems collectionPoint obstacles gridSize = Some \<infinity>)"
  by (auto simp: heuristic_def truthy_def mult.commute)

theorem heuristic_value_witness:
  "holding carryingState = Some ''ItemA''
   \<and> findPath (robotPos carryingState) (pt 0 0) [] 8 = Some (Some [pt 1 0, pt 0 0])
   \<and> heuristic carryingState [''ItemA''] (pt 0 0) [] 8 = Some (enat 21)"
  using heuristic_value [where state = carryingState and collectionPoint = "pt 0 0"
      and obstacles = "[]" and gridSize = 8 and goalItems = "[''ItemA'']"]
    findPath_west
  by (simp add: carryingState_def)

text \<open>
  C8 as stated fails for a held item whose identifier is the empty string: one item
  is to get and the path to the collection point has one edge, but the heuristic is 20.
\<close>

theorem heuristic_unnamed_held:
  "holding (unnamedHeldAt (pt 1 0)) \<noteq> None
   \<and> findPath (robotPos (unnamedHeldAt (pt 1 0))) (pt 0 0) [] 8 = Some (Some [pt 1 0, pt 0 0])
   \<and> heuristic (unnamedHeldAt (pt 1 0)) [''ItemA''] (pt 0 0) [] 8 = Some (enat 20)"
  by (simp add: unnamedHeldAt_def findPath_west heuristic_def truthy_def)

subsection \<open>The invariant of the states\<close>

lemma set_robotItems:
  "set (robotItems state) = {i. map_of (itemLocations state) i = Some ''robot''}"
  by (auto simp: robotItems_def dest: map_of_SomeD intro: rev_image_eqI)

lemma assignEntry_existing:
  "k \<in> fst ` set entries \<Longrightarrow> assignEntry k v entries = AList.update k v entries"
  by (simp add: assignEntry_def)

lemma assignEntry_proto:
  "''__proto__'' \<notin> fst ` set entries \<Longrightarrow> assignEntry ''__proto__'' v entries = entries"
  by (simp add: assignEntry_def)

lemma map_of_insert_entry:
  "k \<notin> fst ` set xs \<Longrightarrow> map_of (xs @ (k, v) # ys) = (map_of (xs @ ys))(k \<mapsto> v)"
proof (induction xs)
  case Nil
  then show ?case by simp
next
  case (Cons a xs)
  then have "fst a \<noteq> k" and "k \<notin> fst ` set xs" by auto
  with Cons.IH show ?case by (auto simp: fun_eq_iff)
qed

lemma map_of_assignEntry:
  assumes "k \<in> fst ` set entries \<or> k \<noteq> ''__proto__''"
  shows "map_of (assignEntry k v entries) = (map_of entries)(k \<mapsto> v)"
proof (cases "k \<in> fst ` set entries")
  case True
  then show ?thesis by (simp add: assignEntry_existing update_conv')
next
  case False
  with assms have np: "k \<noteq> ''__proto__''" by simp
  show ?thesis
  proof (cases "arrayIndex k")
    case None
    with False np map_of_insert_entry [of k entries v "[]"] show ?thesis
      by (simp add: assignEntry_def)
  next
    case (Some n)
    from False have "k \<notin> fst ` set (takeWhile (indexBelow n) entries)"
      by (auto dest: set_takeWhileD)
    from map_of_insert_entry [OF this, of v "dropWhile (indexBelow n) entries"] False np Some
    show ?thesis by (simp add: assignEntry_def)
  qed
qed

lemma robotItems_assign:
  assumes "k \<in> fst ` set l \<or> k \<noteq> ''__proto__''"
  shows "{i. map_of (assignEntry k v l) i = Some ''robot''} =
     (if v = ''robot'' then insert k {i. map_of l i = Some ''robot''}
      else {i. map_of l i = Some ''robot''} - {k})"
  by (auto simp: map_of_assignEntry [OF assms])

lemma find_SomeD: "find P xs = Some a \<Longrightarrow> P a \<and> a \<in> set xs"
  by (induction xs) (auto split: if_splits)

text \<open>
  C5, as amended: from a state that satisfies the invariant and holds nothing or an
  item with a non-empty identifier, when \<^verbatim>\<open>__proto__\<close> is not among the goal items, every
  action that \<open>getSuccessors\<close> produces leads \<open>applyAction\<close> to a state that satisfies the
  invariant: no two items are on the robot, and an item is held exactly when it is the
  one item on the robot.
\<close>

theorem applyAction_keeps_invariant:
  assumes inv: "stateInvariant state" and ne: "holding state \<noteq> Some []"
    and proto: "''__proto__'' \<notin> set goalItems"
    and succ: "getSuccessors state goalItems shelves collectionPoint obstacles gridSize = Some actions"
    and mem: "action \<in> set actions"
  shows "stateInvariant (applyAction state action)"
proof (cases "holding state")
  case None
  with inv have e: "{i. map_of (itemLocations state) i = Some ''robot''} = {}"
    by (simp add: stateInvariant_def set_robotItems)
  from None succ obtain picks moves targets where
    m: "shelfMoves state obstacles gridSize targets = Some moves"
    and a: "actions = picks @ moves"
    and p: "\<forall>a \<in> set picks. \<exists>i s. a = PICK i s 1 \<and> i \<in> set goalItems"
    by (auto simp: getSuccessors_def truthy_def Let_def split: option.splits if_splits
        dest!: find_SomeD)
  from mem a consider "action \<in> set picks" | "action \<in> set moves" by auto
  then show ?thesis
  proof cases
    case 1
    with p obtain i s where i: "action = PICK i s 1" "i \<in> set goalItems" by auto
    with proto have "i \<in> fst ` set (itemLocations state) \<or> i \<noteq> ''__proto__''" by auto
    with e i(1) show ?thesis
      by (simp add: stateInvariant_def set_robotItems robotItems_assign)
  next
    case 2
    with m obtain b pth c where "action = MOVE (robotPos state) b pth c"
      using shelfMoves_are_moves by blast
    with inv show ?thesis
      by (simp add: stateInvariant_def robotItems_def split: option.splits)
  qed
next
  case (Some held)
  with ne have h: "held \<noteq> []" by auto
  from inv Some have e: "{i. map_of (itemLocations state) i = Some ''robot''} = {held}"
    by (simp add: stateInvariant_def set_robotItems)
  then have "map_of (itemLocations state) held = Some ''robot''" by auto
  then have own: "held \<in> fst ` set (itemLocations state) \<or> held \<noteq> ''__proto__''"
    by (auto dest: map_of_SomeD intro: rev_image_eqI)
  from Some h succ mem consider b pth c where "action = MOVE (robotPos state) b pth c"
    | "action = DROP held 1"
    by (auto simp: getSuccessors_def truthy_def split: option.splits if_splits)
  then show ?thesis
  proof cases
    case 1
    with inv show ?thesis by (simp add: stateInvariant_def robotItems_def split: option.splits)
  next
    case 2
    with e own show ?thesis
      by (simp add: stateInvariant_def set_robotItems robotItems_assign)
  qed
qed

lemma getSuccessors_atShelf:
  "getSuccessors atShelfState [''ItemA''] [shelfS1] (pt 0 0) [] 8 = Some [PICK ''ItemA'' ''S1'' 1]"
  by (simp add: atShelfState_def getSuccessors_def truthy_def shelfS1_def findPath_same)

theorem applyAction_keeps_invariant_witness:
  "stateInvariant atShelfState \<and> holding atShelfState \<noteq> Some []
   \<and> ''__proto__'' \<notin> set [''ItemA'']
   \<and> getSuccessors atShelfState [''ItemA''] [shelfS1] (pt 0 0) [] 8 = Some [PICK ''ItemA'' ''S1'' 1]
   \<and> stateInvariant (applyAction atShelfState (PICK ''ItemA'' ''S1'' 1))"
proof -
  have i: "stateInvariant atShelfState"
    by (simp add: stateInvariant_def robotItems_def atShelfState_def)
  have n: "holding atShelfState \<noteq> Some []"
    by (simp add: atShelfState_def)
  have q: "''__proto__'' \<notin> set [''ItemA'']"
    by simp
  from applyAction_keeps_invariant [OF i n q getSuccessors_atShelf] i n q getSuccessors_atShelf
  show ?thesis by simp
qed

text \<open>
  C5 as stated fails for a held item whose identifier is the empty string: the state
  satisfies the invariant, the branch of the empty hand picks a second item, and two
  items are on the robot.
\<close>

theorem applyAction_unnamed_held:
  "stateInvariant (unnamedHeldAt (pt 1 0))
   \<and> getSuccessors (unnamedHeldAt (pt 1 0)) [''ItemA''] [shelfS1] (pt 0 0) [] 8
       = Some [PICK ''ItemA'' ''S1'' 1]
   \<and> \<not> stateInvariant (applyAction (unnamedHeldAt (pt 1 0)) (PICK ''ItemA'' ''S1'' 1))"
  by (simp add: stateInvariant_def robotItems_def unnamedHeldAt_def getSuccessors_def truthy_def
      shelfS1_def findPath_same assignEntry_def)

text \<open>
  The amended claim leaves the goal item \<^verbatim>\<open>__proto__\<close> out. With nothing held and a shelf
  under the robot that stocks it, \<open>getSuccessors\<close> picks it; the assignment makes no
  entry, so the item is held and no item is on the robot.
\<close>

lemma applyAction_proto_item:
  "stateInvariant protoState
   \<and> getSuccessors protoState [''__proto__''] [protoShelf] (pt 0 0) [] 8
       = Some [PICK ''__proto__'' ''S9'' 1]
   \<and> applyAction protoState (PICK ''__proto__'' ''S9'' 1)
       = protoState\<lparr>holding := Some ''__proto__''\<rparr>
   \<and> \<not> stateInvariant (applyAction protoState (PICK ''__proto__'' ''S9'' 1))"
  by (simp add: stateInvariant_def robotItems_def protoState_def protoShelf_def getSuccessors_def
      truthy_def findPath_same assignEntry_def)

section \<open>The task planner\<close>

subsection \<open>The returned plan reaches the goal\<close>

lemma processSuccessors_tracks:
  "processSuccessors ck goalItems collectionPoint obstacles gridSize
     currentState key currentPath successors (openSet, gScore, fScore) = Some (openSet', gScore', fScore') \<Longrightarrow>
   currentState = foldl applyAction initialState currentPath \<Longrightarrow>
   tracks initialState openSet \<Longrightarrow> tracks initialState openSet'"
proof (induction successors arbitrary: openSet gScore fScore)
  case Nil
  then show ?case by simp
next
  case (Cons action rest)
  show ?case
  proof (cases "enat (orZero (gScore key) + cost action)
                  < orInfinity (gScore (stateToString ck (applyAction currentState action)))")
    case False
    with Cons.prems(1) have "processSuccessors ck goalItems collectionPoint obstacles gridSize
       currentState key currentPath rest (openSet, gScore, fScore) = Some (openSet', gScore', fScore')"
      by (simp add: Let_def)
    from Cons.IH [OF this Cons.prems(2,3)] show ?thesis .
  next
    case True
    with Cons.prems(1) obtain h where
      r: "processSuccessors ck goalItems collectionPoint obstacles gridSize
         currentState key currentPath rest
         (enqueue (applyAction currentState action, currentPath @ [action])
            (enat (orZero (gScore key) + cost action) + h) openSet,
          gScore(stateToString ck (applyAction currentState action) \<mapsto> orZero (gScore key) + cost action),
          fScore(stateToString ck (applyAction currentState action) \<mapsto>
            enat (orZero (gScore key) + cost action) + h)) = Some (openSet', gScore', fScore')"
      by (auto simp: Let_def split: option.splits)
    have "tracks initialState (enqueue (applyAction currentState action, currentPath @ [action])
            (enat (orZero (gScore key) + cost action) + h) openSet)"
      using Cons.prems(2,3) by (simp add: tracks_def set_enqueue)
    from Cons.IH [OF r Cons.prems(2) this] show ?thesis .
  qed
qed

declare plannerLoop.simps [simp del]

lemma plannerLoop_sound:
  "plannerLoop ck goalItems shelves collectionPoint obstacles gridSize st iters = Some (Some result, out) \<Longrightarrow>
   tracks initialState (fst st) \<Longrightarrow>
   isGoal (foldl applyAction initialState (path result)) goalItems"
proof (induction ck goalItems shelves collectionPoint obstacles gridSize st iters
    rule: plannerLoop.induct)
  case (1 ck goalItems shelves collectionPoint obstacles gridSize st iters)
  obtain openSet gScore fScore where st: "st = (openSet, gScore, fScore)" by (metis prod_cases3)
  from 1(2) obtain b where b: "plannerBody ck goalItems shelves collectionPoint obstacles gridSize st iters = Some b"
    by (subst (asm) plannerLoop.simps) (auto split: option.splits)
  show ?case
  proof (cases b)
    case (Inl r)
    with b 1(2) have r: "r = (Some result, out)"
      by (subst (asm) plannerLoop.simps) simp
    with b Inl st obtain currentState f rest where
      "openSet = ((currentState, path result), f) # rest" "isGoal currentState goalItems"
      by (cases openSet)
        (auto simp: plannerBody_def dequeue_def isEmpty_def split: if_splits option.splits)
    with 1(3) st show ?thesis by (simp add: tracks_def)
  next
    case (Inr st')
    with b 1(2) have l: "plannerLoop ck goalItems shelves collectionPoint obstacles gridSize st' (Suc iters)
        = Some (Some result, out)"
      by (subst (asm) plannerLoop.simps) simp
    obtain o' g' f' where st': "st' = (o', g', f')" by (metis prod_cases3)
    from b Inr st st' obtain currentState currentPath f rest successors where
      q: "openSet = ((currentState, currentPath), f) # rest"
      and p: "processSuccessors ck goalItems collectionPoint obstacles gridSize
               currentState (stateToString ck currentState) currentPath successors (rest, gScore, fScore)
              = Some (o', g', f')"
      by (cases openSet)
        (auto simp: plannerBody_def dequeue_def isEmpty_def split: if_splits option.splits)
    from q 1(3) st have "currentState = foldl applyAction initialState currentPath"
      and "tracks initialState rest"
      by (simp_all add: tracks_def)
    from processSuccessors_tracks [OF p this] have "tracks initialState (fst st')"
      by (simp add: st')
    from 1(1) [OF b Inr l this] show ?thesis .
  qed
qed

text \<open>
  C2: when \<open>aStarPlanner\<close> returns a result, applying its actions in order with
  \<open>applyAction\<close>, from the initial state, gives a state in which every goal item has
  the location tag \<^verbatim>\<open>"collectionPoint"\<close>.
\<close>

theorem aStarPlanner_sound:
  assumes "aStarPlanner ck initialState goalItems shelves collectionPoint obstacles gridSize
             = Some (Some result, out)"
  shows "isGoal (foldl applyAction initialState (path result)) goalItems"
proof -
  from assms obtain h where
    "plannerLoop ck goalItems shelves collectionPoint obstacles gridSize
       (initialPlanState ck initialState h) 0 = Some (Some result, out)"
    by (auto simp: aStarPlanner_def split: option.splits)
  from plannerLoop_sound [OF this, of initialState] show ?thesis
    by (simp add: tracks_def set_enqueue initialPlanState_def Let_def)
qed

text \<open>A run that fetches one item from the neighbouring cell and brings it back.\<close>

lemma aStarPlanner_fetch:
  "aStarPlanner codeUnits startState [''ItemA''] [shelfS1] (pt 0 0) [] 8
     = Some (Some \<lparr>path = [MOVE (pt 0 0) (pt 1 0) [pt 0 0, pt 1 0] 1, PICK ''ItemA'' ''S1'' 1,
                           MOVE (pt 1 0) (pt 0 0) [pt 1 0, pt 0 0] 1, DROP ''ItemA'' 1],
                   iterations = 5\<rparr>, [])"
  by code_simp

theorem aStarPlanner_sound_witness:
  "aStarPlanner codeUnits startState [''ItemA''] [shelfS1] (pt 0 0) [] 8
     = Some (Some \<lparr>path = [MOVE (pt 0 0) (pt 1 0) [pt 0 0, pt 1 0] 1, PICK ''ItemA'' ''S1'' 1,
                           MOVE (pt 1 0) (pt 0 0) [pt 1 0, pt 0 0] 1, DROP ''ItemA'' 1],
                   iterations = 5\<rparr>, [])
   \<and> isGoal (foldl applyAction startState
               [MOVE (pt 0 0) (pt 1 0) [pt 0 0, pt 1 0] 1, PICK ''ItemA'' ''S1'' 1,
                MOVE (pt 1 0) (pt 0 0) [pt 1 0, pt 0 0] 1, DROP ''ItemA'' 1]) [''ItemA'']"
  using aStarPlanner_sound [OF aStarPlanner_fetch] aStarPlanner_fetch by simp

subsection \<open>A state recorded with the g-score 0\<close>

text \<open>
  The test \<^verbatim>\<open>tentativeGScore < (gScore.get(nextStateKey) || Infinity)\<close> compares with the
  recorded g-score when that is positive, and succeeds always when it is 0.
\<close>

lemma recorded_positive_test: "0 < g \<Longrightarrow> enat t < orInfinity (Some g) \<longleftrightarrow> t < g"
  by (simp add: orInfinity_def)

lemma recorded_zero_test: "enat t < orInfinity (Some 0)"
  by (simp add: orInfinity_def)

text \<open>
  C4 on the code: the robot starts on shelf S1 at (0,0), shelf S2 and the collection
  point are at (1,0), and both items are wanted. The first round moves the robot to S2.
  The second round expands that state; its successor that moves back to S1 is the
  initial state, whose key has the recorded g-score 0. The test reads the 0 as
  \<^verbatim>\<open>Infinity\<close>: the key is recorded again with the g-score 2, and the state is pushed
  onto the frontier with the path of the two moves.
\<close>

theorem aStarPlanner_rerecords_start:
  "heuristic revisitInitial [''ItemA'', ''ItemB''] (pt 1 0) [] 8 = Some (enat 40)
   \<and> (case plannerRounds codeUnits [''ItemA'', ''ItemB''] revisitShelves (pt 1 0) [] 8
             (initialPlanState codeUnits revisitInitial (enat 40)) 0 1 of
         None \<Rightarrow> False
       | Some (openSet, gScore, fScore) \<Rightarrow>
           gScore (stateToString codeUnits revisitInitial) = Some 0)
   \<and> (case plannerRounds codeUnits [''ItemA'', ''ItemB''] revisitShelves (pt 1 0) [] 8
             (initialPlanState codeUnits revisitInitial (enat 40)) 0 2 of
         None \<Rightarrow> False
       | Some (openSet, gScore, fScore) \<Rightarrow>
           gScore (stateToString codeUnits revisitInitial) = Some 2
           \<and> ((revisitInitial,
                 [MOVE (pt 0 0) (pt 1 0) [pt 0 0, pt 1 0] 1,
                  MOVE (pt 1 0) (pt 0 0) [pt 1 0, pt 0 0] 1]), enat 42) \<in> set openSet)"
  by code_simp

subsection \<open>The two failures\<close>

text \<open>
  In the chain world every round of the search has exactly one successor, and the key of
  that successor is longer than every key recorded before, so it is new and is pushed.
  The open set is never empty and never holds a goal state before the budget runs out.
\<close>

lemma digitsOf_inj: "digitsOf a = digitsOf b \<Longrightarrow> a = b"
  by (metis digitsOf_value)

lemma digitsOf_length: "n < 10 ^ m \<Longrightarrow> 0 < m \<Longrightarrow> length (digitsOf n) \<le> m"
proof (induction n arbitrary: m rule: digitsOf.induct)
  case (1 n)
  show ?case
  proof (cases "n < 10")
    case True
    with 1(3) show ?thesis by (subst digitsOf.simps) simp
  next
    case False
    with 1(2) have "1 < m" by (cases m; cases "m - 1") auto
    moreover from 1(2) this have "n div 10 < 10 ^ (m - 1)"
      by (cases m) (auto simp: less_mult_imp_div_less mult.commute)
    ultimately have "length (digitsOf (n div 10)) \<le> m - 1"
      using 1(1) [OF False] by simp
    with False \<open>1 < m\<close> show ?thesis by (subst digitsOf.simps) simp
  qed
qed

lemma chainItem_inj: "chainItem a = chainItem b \<Longrightarrow> a = b"
  by (simp add: chainItem_def digitsOf_inj)

lemma chainItem_nonempty: "chainItem j \<noteq> []"
  by (simp add: chainItem_def)

lemma chainItem_length: "j < 10000 \<Longrightarrow> length (chainItem j) \<le> 5"
  using digitsOf_length [of j 4] by (simp add: chainItem_def)

lemma chain_map_of:
  "j < n \<Longrightarrow> map_of (map (\<lambda>j. (chainItem j, g j)) [0..<n]) (chainItem j) = Some (g j)"
proof -
  assume "j < n"
  have "map_of (map (\<lambda>j. (chainItem j, g j)) js) (chainItem j) = (if j \<in> set js then Some (g j) else None)" for js
    by (induction js) (auto dest: chainItem_inj)
  with \<open>j < n\<close> show ?thesis by simp
qed

lemma chain_update_existing:
  "k \<in> set js \<Longrightarrow> distinct js \<Longrightarrow>
   AList.update (chainItem k) v (map (\<lambda>j. (chainItem j, g j)) js)
     = map (\<lambda>j. (chainItem j, if j = k then v else g j)) js"
proof (induction js)
  case Nil
  then show ?case by simp
next
  case (Cons a js)
  show ?case
  proof (cases "a = k")
    case True
    with Cons.prems have "k \<notin> set js" by simp
    then have "map (\<lambda>j. (chainItem j, if j = k then v else g j)) js = map (\<lambda>j. (chainItem j, g j)) js"
      by (induction js) auto
    with True show ?thesis by simp
  next
    case False
    with Cons show ?thesis by (auto dest: chainItem_inj)
  qed
qed

lemma chain_update:
  assumes "k \<in> set js" and "distinct js"
  shows "assignEntry (chainItem k) v (map (\<lambda>j. (chainItem j, g j)) js)
     = map (\<lambda>j. (chainItem j, if j = k then v else g j)) js"
proof -
  from assms(1) have "chainItem k \<in> fst ` set (map (\<lambda>j. (chainItem j, g j)) js)"
    by (auto intro!: rev_image_eqI)
  then show ?thesis
    by (simp only: assignEntry_existing chain_update_existing [OF assms])
qed

lemma find_first:
  "k < length xs \<Longrightarrow> Q (xs ! k) \<Longrightarrow> \<forall>j<k. \<not> Q (xs ! j) \<Longrightarrow> find Q xs = Some (xs ! k)"
proof (induction xs arbitrary: k)
  case Nil
  then show ?case by simp
next
  case (Cons a xs)
  show ?case
  proof (cases k)
    case 0
    with Cons.prems show ?thesis by simp
  next
    case (Suc m)
    with Cons.prems have "\<not> Q a" by auto
    moreover from Suc Cons.prems have "find Q xs = Some (xs ! m)"
      by (intro Cons.IH) auto
    ultimately show ?thesis using Suc by simp
  qed
qed

lemma chainState_lookup:
  "j < n \<Longrightarrow> map_of (itemLocations (chainState n t)) (chainItem j) = Some (chainTag t j)"
  by (simp add: chainState_def chain_map_of)

lemma chainTag_needed:
  "(chainTag t j \<noteq> ''collectionPoint'' \<and> chainTag t j \<noteq> ''robot'') = (if odd t then t div 2 < j else t div 2 \<le> j)"
  by (auto simp: chainTag_def)

lemma chainState_not_goal:
  assumes "t div 2 < n"
  shows "\<not> isGoal (chainState n t) (chainItems n)"
proof -
  have "chainItem (t div 2) \<in> set (chainItems n)"
    using assms by (simp add: chainItems_def)
  moreover have "map_of (itemLocations (chainState n t)) (chainItem (t div 2)) \<noteq> Some ''collectionPoint''"
    using assms by (simp add: chainState_lookup chainTag_def)
  ultimately show ?thesis
    by (auto simp: isGoal_def list_all_iff)
qed

lemma chain_pick:
  assumes "even t" and "t div 2 < n"
  shows "getSuccessors (chainState n t) (chainItems n) [chainShelf n] (pt 0 0) obstacles gridSize
           = Some [PICK (chainItem (t div 2)) ''S'' 1]"
proof -
  define needed where
    "needed = filter (\<lambda>item. map_of (itemLocations (chainState n t)) item \<noteq> Some ''collectionPoint''
                          \<and> map_of (itemLocations (chainState n t)) item \<noteq> Some ''robot'') (chainItems n)"
  have mem: "chainItem j \<in> set needed \<longleftrightarrow> t div 2 \<le> j" if "j < n" for j
    using that assms(1) by (auto simp: needed_def chainState_lookup chainTag_needed chainItems_def)
  have f: "find (\<lambda>item. item \<in> set needed) (chainItems n) = Some (chainItems n ! (t div 2))"
  proof (rule find_first)
    show "t div 2 < length (chainItems n)" using assms(2) by (simp add: chainItems_def)
    show "chainItems n ! (t div 2) \<in> set needed"
      using assms(2) mem [of "t div 2"] by (simp add: chainItems_def)
    show "\<forall>j<t div 2. chainItems n ! j \<notin> set needed"
    proof (intro allI impI)
      fix j assume "j < t div 2"
      with assms(2) mem [of j] show "chainItems n ! j \<notin> set needed"
        by (simp add: chainItems_def)
    qed
  qed
  have i: "chainItems n ! (t div 2) = chainItem (t div 2)"
    using assms(2) by (simp add: chainItems_def)
  have e: "list_ex (\<lambda>item. item \<in> set needed) (chainItems n)"
    unfolding list_ex_iff using assms(2) mem [of "t div 2"]
    by (intro bexI [where x = "chainItem (t div 2)"]) (simp_all add: chainItems_def)
  have h: "holding (chainState n t) = None" "robotPos (chainState n t) = pt 0 0"
    using assms(1) by (simp_all add: chainState_def)
  show ?thesis
    unfolding getSuccessors_def Let_def needed_def [symmetric]
    by (simp add: h truthy_def f i e chainShelf_def chainItem_nonempty findPath_same)
qed

lemma chain_drop:
  assumes "odd t"
  shows "getSuccessors (chainState n t) (chainItems n) [chainShelf n] (pt 0 0) obstacles gridSize
           = Some [DROP (chainItem (t div 2)) 1]"
  using assms by (simp add: getSuccessors_def chainState_def truthy_def chainItem_nonempty findPath_same)

lemma chain_successors:
  "t div 2 < n \<Longrightarrow>
   getSuccessors (chainState n t) (chainItems n) [chainShelf n] (pt 0 0) obstacles gridSize
     = Some [chainAction t]"
  by (cases "odd t") (simp_all add: chainAction_def chain_pick chain_drop)

lemma chain_apply:
  assumes "t div 2 < n"
  shows "applyAction (chainState n t) (chainAction t) = chainState n (Suc t)"
proof (cases "odd t")
  case True
  then have d: "Suc t div 2 = Suc (t div 2)" by presburger
  have "(if j = t div 2 then ''collectionPoint'' else chainTag t j) = chainTag (Suc t) j" for j
    using True by (auto simp: chainTag_def d)
  with True assms show ?thesis
    by (simp add: chainAction_def chainState_def chain_update)
next
  case False
  then have d: "Suc t div 2 = t div 2" by presburger
  have "(if j = t div 2 then ''robot'' else chainTag t j) = chainTag (Suc t) j" for j
    using False by (auto simp: chainTag_def d)
  with False assms show ?thesis
    by (simp add: chainAction_def chainState_def chain_update d)
qed

lemma chain_heuristic:
  "\<exists>h. heuristic (chainState n t) goalItems (pt 0 0) obstacles gridSize = Some h"
  by (simp add: heuristic_def chainState_def truthy_def findPath_same Let_def)

lemma length_join:
  "length (join sep xs) = sum_list (map length xs) + (length xs - 1) * length sep"
  by (induction sep xs rule: join.induct) auto

lemma sum_list_sort_key: "sum_list (map g (sort_key f l)) = sum_list (map (g :: 'a \<Rightarrow> nat) l)"
proof -
  have "sum_list (map g (sort_key f l)) = sum_mset (mset (map g (sort_key f l)))"
    by (simp only: sum_mset_sum_list)
  also have "\<dots> = sum_mset (mset (map g l))" by simp
  also have "\<dots> = sum_list (map g l)" by (simp only: sum_mset_sum_list)
  finally show ?thesis .
qed

lemma length_entries:
  "sum_list (map length (map (\<lambda>(item, loc). item @ '':'' @ loc) (sort_key f l)))
     = sum_list (map (\<lambda>e. length (fst e) + 1 + length (snd e)) l)"
proof -
  have "sum_list (map length (map (\<lambda>(item, loc). item @ '':'' @ loc) (sort_key f l)))
          = sum_list (map (\<lambda>e. length (fst e) + 1 + length (snd e)) (sort_key f l))"
    by (rule arg_cong [where f = sum_list]) (simp add: case_prod_beta)
  also have "\<dots> = sum_list (map (\<lambda>e. length (fst e) + 1 + length (snd e)) l)"
    by (rule sum_list_sort_key)
  finally show ?thesis .
qed

lemma length_stateToString:
  "length (stateToString ck s) =
     length (showInt (x (robotPos s))) + length (showInt (y (robotPos s))) + 3
     + length (case holding s of None \<Rightarrow> ''null'' | Some h \<Rightarrow> h)
     + sum_list (map (\<lambda>e. length (fst e) + 1 + length (snd e)) (itemLocations s))
     + (length (itemLocations s) - 1)"
  unfolding stateToString_def Let_def length_append length_join length_entries
  by simp

lemma sum_list_bump:
  assumes "k < n"
  shows "sum_list (map (\<lambda>j. g j + (if j = k then d else 0)) [0..<n]) = sum_list (map g [0..<n]) + (d::nat)"
proof -
  have "sum_list (map (\<lambda>j. g j + (if j = k then d else 0)) [0..<n])
          = (\<Sum>j = 0..<n. g j + (if j = k then d else 0))"
    by (simp add: interv_sum_list_conv_sum_set_nat)
  also have "\<dots> = (\<Sum>j = 0..<n. g j) + (\<Sum>j = 0..<n. if j = k then d else 0)"
    by (simp add: sum.distrib)
  also have "(\<Sum>j = 0..<n. if j = k then d else 0) = d"
    using assms by simp
  finally show ?thesis by (simp add: interv_sum_list_conv_sum_set_nat)
qed

lemma chainTag_Suc:
  "length (chainTag (Suc t) j)
     = length (chainTag t j) + (if j = t div 2 then (if odd t then 10 else 4) else 0)"
proof (cases "odd t")
  case True
  then have "Suc t div 2 = Suc (t div 2)" by presburger
  with True show ?thesis by (auto simp: chainTag_def)
next
  case False
  then have "Suc t div 2 = t div 2" by presburger
  with False show ?thesis by (auto simp: chainTag_def)
qed

lemma chain_key_longer:
  assumes "t div 2 < n" and "n \<le> 10000"
  shows "length (stateToString ck (chainState n t)) < length (stateToString ck (chainState n (Suc t)))"
proof -
  define w where "w u = sum_list (map (\<lambda>j. length (chainItem j) + 1 + length (chainTag u j)) [0..<n])" for u
  define c where "c = length (showInt 0) + length (showInt 0) + 3 + (n - 1)"
  have e: "sum_list (map (\<lambda>e. length (fst e) + 1 + length (snd e)) (itemLocations (chainState n u))) = w u"
    for u
    by (simp add: chainState_def comp_def w_def)
  have L: "length (stateToString ck (chainState n u))
             = c + length (case holding (chainState n u) of None \<Rightarrow> ''null'' | Some h \<Rightarrow> h) + w u" for u
    unfolding length_stateToString e by (simp add: chainState_def pt_def c_def)
  have "w (Suc t) = sum_list (map (\<lambda>j. (length (chainItem j) + 1 + length (chainTag t j))
                        + (if j = t div 2 then (if odd t then 10 else 4) else 0)) [0..<n])"
    unfolding w_def by (simp add: chainTag_Suc add.assoc)
  also have "\<dots> = w t + (if odd t then 10 else 4)"
    unfolding w_def using assms(1) by (rule sum_list_bump)
  finally have w: "w (Suc t) = w t + (if odd t then 10 else 4)" .
  have l: "0 < length (chainItem (t div 2))" "length (chainItem (t div 2)) \<le> 5"
    using assms chainItem_nonempty [of "t div 2"] chainItem_length [of "t div 2"] by simp_all
  show ?thesis
  proof (cases "odd t")
    case True
    then have "holding (chainState n t) = Some (chainItem (t div 2))"
      and "holding (chainState n (Suc t)) = None"
      by (simp_all add: chainState_def)
    with True w l show ?thesis by (simp add: L)
  next
    case False
    then have "Suc t div 2 = t div 2" by presburger
    with False have "holding (chainState n t) = None"
      and "holding (chainState n (Suc t)) = Some (chainItem (t div 2))"
      by (simp_all add: chainState_def)
    with False w l show ?thesis by (simp add: L)
  qed
qed

lemma chain_processSuccessors:
  assumes "\<forall>k \<in> dom gScore. length k \<le> length (stateToString ck (chainState n t))"
    and "t div 2 < n" and "n \<le> 10000"
  shows "\<exists>st'. processSuccessors ck goalItems (pt 0 0) obstacles gridSize
            (chainState n t) key p [chainAction t] ([], gScore, fScore) = Some st'
          \<and> chainSearch ck n (Suc t) st'"
proof -
  have a: "applyAction (chainState n t) (chainAction t) = chainState n (Suc t)"
    using assms(2) by (rule chain_apply)
  have lt: "length (stateToString ck (chainState n t)) < length (stateToString ck (chainState n (Suc t)))"
    using assms(2,3) by (rule chain_key_longer)
  have "stateToString ck (chainState n (Suc t)) \<notin> dom gScore"
    using assms(1) lt by (auto simp: not_le [symmetric])
  then have g: "gScore (stateToString ck (chainState n (Suc t))) = None" by auto
  obtain h where h: "heuristic (chainState n (Suc t)) goalItems (pt 0 0) obstacles gridSize = Some h"
    using chain_heuristic by blast
  have d: "\<forall>k \<in> dom (gScore(stateToString ck (chainState n (Suc t)) \<mapsto> v)).
             length k \<le> length (stateToString ck (chainState n (Suc t)))" for v
  proof
    fix k assume "k \<in> dom (gScore(stateToString ck (chainState n (Suc t)) \<mapsto> v))"
    then consider "k = stateToString ck (chainState n (Suc t))" | "k \<in> dom gScore"
      by (auto split: if_splits)
    then show "length k \<le> length (stateToString ck (chainState n (Suc t)))"
    proof cases
      case 1
      then show ?thesis by simp
    next
      case 2
      with assms(1) have "length k \<le> length (stateToString ck (chainState n t))" by blast
      with lt show ?thesis by simp
    qed
  qed
  show ?thesis
    using d by (simp add: a g h orInfinity_def Let_def chainSearch_def enqueue_def)
qed

lemma chain_body:
  assumes "chainSearch ck n t st" and "t < maxIterations" and "t div 2 < n" and "n \<le> 10000"
  shows "\<exists>st'. plannerBody ck (chainItems n) [chainShelf n] (pt 0 0) obstacles gridSize st t
                  = Some (Inr st') \<and> chainSearch ck n (Suc t) st'"
proof -
  obtain openSet gScore fScore where st: "st = (openSet, gScore, fScore)" by (metis prod_cases3)
  with assms(1) obtain p f where q: "openSet = [((chainState n t, p), f)]"
    and d: "\<forall>k \<in> dom gScore. length k \<le> length (stateToString ck (chainState n t))"
    by (auto simp: chainSearch_def)
  from chain_processSuccessors [OF d assms(3,4)]
  obtain st' where p: "processSuccessors ck (chainItems n) (pt 0 0) obstacles gridSize
            (chainState n t) (stateToString ck (chainState n t)) p [chainAction t] ([], gScore, fScore) = Some st'"
    and c: "chainSearch ck n (Suc t) st'"
    by blast
  have "plannerBody ck (chainItems n) [chainShelf n] (pt 0 0) obstacles gridSize st t = Some (Inr st')"
    using assms(2,3)
    by (simp add: plannerBody_def st q isEmpty_def dequeue_def chainState_not_goal
        chain_successors p del: processSuccessors.simps)
  with c show ?thesis by blast
qed

lemma chain_loop:
  "chainSearch ck n t st \<Longrightarrow> t \<le> maxIterations \<Longrightarrow> maxIterations \<le> 2 * n \<Longrightarrow> n \<le> 10000 \<Longrightarrow>
   plannerLoop ck (chainItems n) [chainShelf n] (pt 0 0) obstacles gridSize st t
     = Some (None, [''Planner timed out: max iterations reached.''])"
proof (induction "maxIterations - t" arbitrary: t st)
  case 0
  then have t: "t = maxIterations" by simp
  obtain openSet gScore fScore where st: "st = (openSet, gScore, fScore)" by (metis prod_cases3)
  with 0(2) obtain p f where q: "openSet = [((chainState n t, p), f)]"
    by (auto simp: chainSearch_def)
  show ?case
    by (subst plannerLoop.simps) (simp add: plannerBody_def st q isEmpty_def t)
next
  case (Suc d)
  then have lt: "t < maxIterations" by simp
  with Suc.prems have "t div 2 < n" by simp
  from chain_body [OF Suc.prems(1) lt this Suc.prems(4)]
  obtain st' where b: "plannerBody ck (chainItems n) [chainShelf n] (pt 0 0) obstacles gridSize st t
                  = Some (Inr st')" and c: "chainSearch ck n (Suc t) st'"
    by blast
  have "plannerLoop ck (chainItems n) [chainShelf n] (pt 0 0) obstacles gridSize st' (Suc t)
     = Some (None, [''Planner timed out: max iterations reached.''])"
  proof (rule Suc.hyps(1))
    show "d = maxIterations - Suc t" using Suc.hyps(2) by simp
    show "Suc t \<le> maxIterations" using lt by simp
  qed (use c Suc.prems in simp_all)
  then show ?case
    by (subst plannerLoop.simps) (simp add: b)
qed

lemma chainInitial_chainState: "chainInitial n = chainState n 0"
  by (simp add: chainInitial_def chainState_def chainItems_def chainTag_def)

lemma chain_times_out:
  assumes "maxIterations \<le> 2 * n" and "n \<le> 10000"
  shows "aStarPlanner ck (chainInitial n) (chainItems n) [chainShelf n] (pt 0 0) obstacles gridSize
           = Some (None, [''Planner timed out: max iterations reached.''])"
proof -
  obtain h where h: "heuristic (chainState n 0) (chainItems n) (pt 0 0) obstacles gridSize = Some h"
    using chain_heuristic by blast
  have "chainSearch ck n 0 (initialPlanState ck (chainState n 0) h)"
    by (simp add: chainSearch_def initialPlanState_def Let_def enqueue_def)
  from chain_loop [OF this _ assms] show ?thesis
    by (simp add: aStarPlanner_def chainInitial_chainState h)
qed

lemma aStarPlanner_chain_budget:
  "aStarPlanner codeUnits (chainInitial 2500) (chainItems 2500) [chainShelf 2500] (pt 0 0) [] 8
     = Some (None, [''Planner timed out: max iterations reached.''])"
  by (rule chain_times_out) (simp_all add: maxIterations_def)

lemma aStarPlanner_no_shelves:
  "aStarPlanner codeUnits startState [''ItemA''] [] (pt 0 0) [] 8 = Some (None, [])"
  by code_simp

lemma plannerLoop_console:
  "plannerLoop ck goalItems shelves collectionPoint obstacles gridSize st iters = Some (r, out) \<Longrightarrow>
   out \<noteq> [] \<Longrightarrow> r = None"
proof (induction ck goalItems shelves collectionPoint obstacles gridSize st iters
    rule: plannerLoop.induct)
  case (1 ck goalItems shelves collectionPoint obstacles gridSize st iters)
  from 1(2) obtain b where b: "plannerBody ck goalItems shelves collectionPoint obstacles gridSize st iters = Some b"
    by (subst (asm) plannerLoop.simps) (auto split: option.splits)
  show ?case
  proof (cases b)
    case (Inl res)
    with b 1(2) have "res = (r, out)"
      by (subst (asm) plannerLoop.simps) simp
    with b Inl 1(3) show ?thesis
      by (auto simp: plannerBody_def split: prod.splits if_splits option.splits)
  next
    case (Inr st')
    with b 1(2) have "plannerLoop ck goalItems shelves collectionPoint obstacles gridSize st' (Suc iters)
        = Some (r, out)"
      by (subst (asm) plannerLoop.simps) simp
    from 1(1) [OF b Inr this 1(3)] show ?thesis .
  qed
qed

text \<open>
  C3, as amended: a run of \<open>aStarPlanner\<close> that gives up on the budget of 5000
  iterations (it writes the time-out message with \<^verbatim>\<open>console.error\<close>) and a run that fails
  because the frontier is empty (it returns \<^verbatim>\<open>null\<close> and writes nothing) return the same
  value, \<^verbatim>\<open>null\<close>. The returned value does not tell the two causes apart; only the
  message does.
\<close>

theorem aStarPlanner_failures_same_value:
  assumes "aStarPlanner ck1 state1 goal1 shelves1 point1 obstacles1 size1
             = Some (r1, [''Planner timed out: max iterations reached.''])"
    and "aStarPlanner ck2 state2 goal2 shelves2 point2 obstacles2 size2 = Some (r2, [])"
    and "r2 = None"
  shows "r1 = r2"
proof -
  from assms(1) obtain h where
    "plannerLoop ck1 goal1 shelves1 point1 obstacles1 size1 (initialPlanState ck1 state1 h) 0
       = Some (r1, [''Planner timed out: max iterations reached.''])"
    by (auto simp: aStarPlanner_def split: option.splits)
  then have "r1 = None" by (rule plannerLoop_console) simp
  with assms(3) show ?thesis by simp
qed

theorem aStarPlanner_failures_same_value_witness:
  "aStarPlanner codeUnits (chainInitial 2500) (chainItems 2500) [chainShelf 2500] (pt 0 0) [] 8
     = Some (None, [''Planner timed out: max iterations reached.''])
   \<and> aStarPlanner codeUnits startState [''ItemA''] [] (pt 0 0) [] 8 = Some (None, [])
   \<and> (None :: PlannerResult option) = None"
  using aStarPlanner_failures_same_value [OF aStarPlanner_chain_budget aStarPlanner_no_shelves refl]
    aStarPlanner_chain_budget aStarPlanner_no_shelves
  by simp

text \<open>
  C3 as stated fails: with 2500 wanted items on one shelf the search needs 5000 actions
  and runs out of its budget, and with no shelf at all the frontier empties; the
  two calls return the same value.
\<close>

theorem aStarPlanner_failures_alike:
  "map_option fst (aStarPlanner codeUnits (chainInitial 2500) (chainItems 2500) [chainShelf 2500]
      (pt 0 0) [] 8) = Some None
   \<and> map_option snd (aStarPlanner codeUnits (chainInitial 2500) (chainItems 2500) [chainShelf 2500]
      (pt 0 0) [] 8) = Some [''Planner timed out: max iterations reached.'']
   \<and> map_option fst (aStarPlanner codeUnits startState [''ItemA''] [] (pt 0 0) [] 8) = Some None
   \<and> map_option snd (aStarPlanner codeUnits startState [''ItemA''] [] (pt 0 0) [] 8) = Some []"
  by (simp add: aStarPlanner_chain_budget aStarPlanner_no_shelves)

end
